theory Spec2Isabelle
  imports Complex_Main "HOL-Library.Word" "HOL-Library.Multiset"
begin

section \<open>Trace generation: samplers, heap scheduler, grouped scheduler\<close>

text \<open>
  The development follows the C++ sources \<^verbatim>\<open>utils.h\<close>, \<^verbatim>\<open>tracegen-utils.h\<close>,
  \<^verbatim>\<open>tracegen.cc\<close>, \<^verbatim>\<open>2d-tracegen.cc\<close> and \<^verbatim>\<open>kd-tracegen.cc\<close>.

  Conventions of the embedding:
  \<^item> \<^verbatim>\<open>i64\<close> values are \<open>int\<close>. Signed overflow of \<^verbatim>\<open>i64\<close> arithmetic is undefined
    behaviour in C++ and is not modelled; the narrowing conversions to the 32-bit
    \<^verbatim>\<open>int\<close>, which are defined (modular), are written out as \<open>narrow\<close>.
  \<^item> \<^verbatim>\<open>f64\<close> values on which the program does arithmetic have an abstract type \<open>'f\<close>;
    the operations on doubles (conversion from an integer, sum, product, quotient,
    power, comparisons, rounding to an integer) are parameters, collected in a record
    \<open>F\<close>. Nothing is assumed about them, so every statement holds for the arithmetic of
    the machine, with its rounding, its infinities and its NaN. The blend variable and
    the blend probability are only compared, never computed with: they are the reals
    the doubles denote.
  \<^item> The random engine \<^verbatim>\<open>std::mt19937_64\<close> together with the private state of every
    sampler closure is one abstract state of type \<open>'g\<close>, threaded through every draw.
    A sampler (\<^verbatim>\<open>dist\<close>) is a function from that state to a value and the next state.
  \<^item> The distributions of the C++ standard library are not part of the sources; they
    are parameters of the definitions that use them.
  \<^item> \<^verbatim>\<open>assert\<close>, \<^verbatim>\<open>ensure_fatal\<close>, \<^verbatim>\<open>log_fatal\<close>, uncaught exceptions and undefined
    behaviour that traps are results \<open>Inl e\<close>.
\<close>

datatype error =
    AssertionFailed    \<comment> \<open>\<^verbatim>\<open>assert\<close> failed\<close>
  | FatalError         \<comment> \<open>\<^verbatim>\<open>ensure_fatal\<close>, \<^verbatim>\<open>log_fatal\<close>, \<^verbatim>\<open>exit(1)\<close>\<close>
  | InvalidArgument    \<comment> \<open>\<^verbatim>\<open>std::stod\<close>, \<^verbatim>\<open>std::stoi\<close> threw\<close>
  | LengthError        \<comment> \<open>\<^verbatim>\<open>vector::reserve\<close> threw \<^verbatim>\<open>std::length_error\<close>\<close>
  | DivisionByZero     \<comment> \<open>integer division by zero\<close>
  | OutOfBounds        \<comment> \<open>unchecked access outside a vector\<close>
  | Diverges           \<comment> \<open>the call does not return\<close>

type_synonym 'g dist = "'g \<Rightarrow> int \<times> 'g"

subsection \<open>\<^verbatim>\<open>utils.h\<close>\<close>

text \<open>\<open>find_sub d s\<close> is \<^verbatim>\<open>s.find(d)\<close>: the first position at which \<open>d\<close> occurs in \<open>s\<close>.\<close>

fun find_sub :: "string \<Rightarrow> string \<Rightarrow> nat option" where
  "find_sub d [] = (if d = [] then Some 0 else None)"
| "find_sub d (c # cs) =
     (if take (length d) (c # cs) = d then Some 0 else map_option Suc (find_sub d cs))"

text \<open>
  The loop of \<^verbatim>\<open>split\<close> on the text from \<^verbatim>\<open>pos_start\<close> on. With an empty delimiter the
  C++ loop finds it at \<^verbatim>\<open>pos_start\<close> again and again and never ends; \<open>split\<close> returns
  \<open>Inl Diverges\<close> there and \<open>split_from\<close> is only called with a non-empty delimiter.
\<close>

function split_from :: "string \<Rightarrow> string \<Rightarrow> string list" where
  "split_from d s =
     (case (if d = [] then None else find_sub d s) of
        None \<Rightarrow> [s]
      | Some pos_end \<Rightarrow> take pos_end s # split_from d (drop (pos_end + length d) s))"
  by pat_completeness auto
termination
proof (relation "measure (\<lambda>(d, s). length s)")
  show "wf (measure (\<lambda>(d, s). length s))" by simp
next
  fix d s :: string and p :: nat
  assume a: "(if d = [] then None else find_sub d s) = Some p"
  have bound: "find_sub d t = Some q \<Longrightarrow> q + length d \<le> length t" for t q
  proof (induction t arbitrary: q)
    case Nil
    then show ?case by (simp split: if_splits)
  next
    case (Cons c cs)
    show ?case
    proof (cases "take (length d) (c # cs) = d")
      case True
      then have "length (take (length d) (c # cs)) = length d"
        by simp
      then have "length d \<le> length (c # cs)"
        by simp
      with True Cons.prems show ?thesis by simp
    next
      case False
      with Cons.prems obtain q' where "find_sub d cs = Some q'" "q = Suc q'" by auto
      with Cons.IH show ?thesis by fastforce
    qed
  qed
  from a have "d \<noteq> []" "find_sub d s = Some p" by (auto split: if_splits)
  with bound [of s p] have "p + length d \<le> length s" by auto
  with \<open>d \<noteq> []\<close> show "((d, drop (p + length d) s), (d, s)) \<in> measure (\<lambda>(d, s). length s)"
    by (cases d) auto
qed

definition split :: "string \<Rightarrow> string \<Rightarrow> error + string list" where
  "split s delimiter = (if delimiter = [] then Inl Diverges else Inr (split_from delimiter s))"

text \<open>
  The operations on doubles. \<open>f_of_i64\<close> is the conversion of an integer, also used for
  the literals \<^verbatim>\<open>0.0\<close>, \<^verbatim>\<open>1.0\<close> and \<^verbatim>\<open>10000.0\<close>; \<open>f_pow\<close> is \<^verbatim>\<open>std::pow\<close>; \<open>f_llround\<close>,
  \<open>f_floor\<close> and \<open>f_round\<close> are \<^verbatim>\<open>std::llround(x)\<close>, \<^verbatim>\<open>(i64)std::floor(x)\<close> and
  \<^verbatim>\<open>(i64)std::round(x)\<close>.
\<close>

record 'f f64_ops =
  f_of_i64 :: "int \<Rightarrow> 'f"
  f_add :: "'f \<Rightarrow> 'f \<Rightarrow> 'f"
  f_mul :: "'f \<Rightarrow> 'f \<Rightarrow> 'f"
  f_div :: "'f \<Rightarrow> 'f \<Rightarrow> 'f"
  f_pow :: "'f \<Rightarrow> 'f \<Rightarrow> 'f"
  f_less :: "'f \<Rightarrow> 'f \<Rightarrow> bool"
  f_eq :: "'f \<Rightarrow> 'f \<Rightarrow> bool"
  f_llround :: "'f \<Rightarrow> int"
  f_floor :: "'f \<Rightarrow> int"
  f_round :: "'f \<Rightarrow> int"

text \<open>
  \<^verbatim>\<open>normalise_vec\<close>: \<^verbatim>\<open>std::accumulate\<close> adds the weights from the left, starting at
  \<^verbatim>\<open>0.0\<close>, and every weight is divided by that sum.
\<close>

definition normalise_vec :: "'f f64_ops \<Rightarrow> 'f list \<Rightarrow> 'f list" where
  "normalise_vec F weights =
     (let sum = foldl (f_add F) (f_of_i64 F 0) weights
      in map (\<lambda>w. f_div F w sum) weights)"

subsection \<open>\<^verbatim>\<open>tracegen-utils.h\<close>: samplers\<close>

text \<open>
  The library parts the samplers are built from. \<open>discrete_distribution ws\<close> draws an
  index into \<open>ws\<close>, \<open>uniform_int_distribution a b\<close> an integer of the closed interval
  from \<open>a\<close> to \<open>b\<close>, \<open>normal_distribution m s\<close> a double; \<open>stod\<close> and \<open>stoi\<close> return \<open>None\<close>
  where the C++ functions throw.
\<close>

record ('g, 'f) stdlib =
  discrete_distribution :: "'f list \<Rightarrow> 'g \<Rightarrow> nat \<times> 'g"
  uniform_int_distribution :: "int \<Rightarrow> int \<Rightarrow> 'g \<Rightarrow> int \<times> 'g"
  normal_distribution :: "'f \<Rightarrow> 'f \<Rightarrow> 'g \<Rightarrow> 'f \<times> 'g"
  stod :: "string \<Rightarrow> 'f option"
  stoi :: "string \<Rightarrow> int option"

text \<open>An interval stands for the \<^verbatim>\<open>std::uniform_int_distribution<i64>(lower, upper)\<close> built on it.\<close>

definition get_intervals :: "int \<Rightarrow> int \<Rightarrow> error + (int \<times> int) list" where
  "get_intervals classes mx =
     (if \<not> (classes > 0 \<and> mx > 0 \<and> classes \<le> mx) then Inl AssertionFailed
      else let width = mx div classes
           in Inr (map (\<lambda>i. ((i - 1) * width, min (i * width - 1) (mx - 1))) [1..classes]))"

definition normal_dist ::
  "'f f64_ops \<Rightarrow> ('g, 'f) stdlib \<Rightarrow> 'f \<Rightarrow> 'f \<Rightarrow> int \<Rightarrow> 'g dist" where
  "normal_dist F L mean stddev mx =
     (\<lambda>g. let (sample, g1) = normal_distribution L mean stddev g
          in if f_less F sample (f_of_i64 F 0) then (0, g1)
             else if f_less F (f_of_i64 F mx) sample then (mx, g1)
             else (f_round F sample, g1))"

text \<open>
  The closure returned by \<^verbatim>\<open>zipf_dist\<close> and \<^verbatim>\<open>pareto_dist\<close>:
  \<^verbatim>\<open>auto idx = dis(rng); return ivs[idx](rng);\<close>
\<close>

definition two_stage :: "('g, 'f) stdlib \<Rightarrow> 'f list \<Rightarrow> (int \<times> int) list \<Rightarrow> 'g dist" where
  "two_stage L weights ivs =
     (\<lambda>g. let (idx, g1) = discrete_distribution L weights g
          in uniform_int_distribution L (fst (ivs ! idx)) (snd (ivs ! idx)) g1)"

text \<open>
  The weights of the zipf sampler: \<^verbatim>\<open>1.0 / std::pow(i, alpha)\<close> for the double counter
  \<open>i = 1, \<dots>, classes\<close>.
\<close>

definition zipf_weights :: "'f f64_ops \<Rightarrow> 'f \<Rightarrow> int \<Rightarrow> 'f list" where
  "zipf_weights F alpha classes =
     map (\<lambda>i. f_div F (f_of_i64 F 1) (f_pow F (f_of_i64 F i) alpha)) [1..classes]"

definition zipf_dist ::
  "'f f64_ops \<Rightarrow> ('g, 'f) stdlib \<Rightarrow> 'f \<Rightarrow> int \<Rightarrow> int \<Rightarrow> error + 'g dist" where
  "zipf_dist F L alpha classes mx =
     (if \<not> (f_less F (f_of_i64 F 0) alpha \<and> classes > 0) then Inl AssertionFailed
      else case get_intervals classes mx of
             Inl e \<Rightarrow> Inl e
           | Inr intervals \<Rightarrow>
               (let weights = normalise_vec F (zipf_weights F alpha classes)
                in if length weights \<noteq> length intervals then Inl AssertionFailed
                   else Inr (two_stage L weights intervals)))"

definition uniform_dist :: "('g, 'f) stdlib \<Rightarrow> int \<Rightarrow> 'g dist" where
  "uniform_dist L mx = uniform_int_distribution L 0 (mx - 1)"

text \<open>The weights of the pareto sampler: \<^verbatim>\<open>std::pow(xm / i, alpha)\<close>.\<close>

definition pareto_weights :: "'f f64_ops \<Rightarrow> 'f \<Rightarrow> 'f \<Rightarrow> int \<Rightarrow> 'f list" where
  "pareto_weights F xm alpha classes =
     map (\<lambda>i. f_pow F (f_div F xm (f_of_i64 F i)) alpha) [1..classes]"

definition pareto_dist ::
  "'f f64_ops \<Rightarrow> ('g, 'f) stdlib \<Rightarrow> 'f \<Rightarrow> 'f \<Rightarrow> int \<Rightarrow> int \<Rightarrow> error + 'g dist" where
  "pareto_dist F L xm alpha classes mx =
     (if \<not> (f_less F (f_of_i64 F 0) xm \<and> f_less F (f_of_i64 F 0) alpha \<and> classes > 0)
      then Inl AssertionFailed
      else case get_intervals classes mx of
             Inl e \<Rightarrow> Inl e
           | Inr intervals \<Rightarrow>
               (let weights = normalise_vec F (pareto_weights F xm alpha classes)
                in if length weights \<noteq> length intervals then Inl AssertionFailed
                   else Inr (two_stage L weights intervals)))"

text \<open>The running sums \<^verbatim>\<open>sum += vals[i]\<close> of the address mode of \<^verbatim>\<open>parse_irm\<close>.\<close>

fun running_sums :: "'f f64_ops \<Rightarrow> 'f \<Rightarrow> 'f list \<Rightarrow> 'f list" where
  "running_sums F acc [] = []"
| "running_sums F acc (v # vs) = f_add F acc v # running_sums F (f_add F acc v) vs"

definition address_sampler ::
  "'f f64_ops \<Rightarrow> ('g, 'f) stdlib \<Rightarrow> 'f list \<Rightarrow> int \<Rightarrow> 'g dist" where
  "address_sampler F L vals mx =
     (let boundaries =
            0 # map (\<lambda>s. f_floor F (f_mul F s (f_of_i64 F mx)))
                  (running_sums F (f_of_i64 F 0) vals)
      in (\<lambda>g. let (bin, g1) = discrete_distribution L vals g;
                  start = boundaries ! bin;
                  end = boundaries ! (bin + 1) - 1
              in uniform_int_distribution L start end g1))"

text \<open>
  The closure of popularity mode:
  \<^verbatim>\<open>int idx = dis(rng); double v = vals[idx]; return (i64) std::llround(v * scale);\<close>
  with \<^verbatim>\<open>scale = 10000.0\<close>.
\<close>

definition popularity_sampler ::
  "'f f64_ops \<Rightarrow> ('g, 'f) stdlib \<Rightarrow> 'f list \<Rightarrow> 'g dist" where
  "popularity_sampler F L vals =
     (\<lambda>g. let (idx, g1) = discrete_distribution L vals g;
              v = vals ! idx
          in (f_llround F (f_mul F v (f_of_i64 F 10000)), g1))"

definition parse_irm ::
  "'f f64_ops \<Rightarrow> ('g, 'f) stdlib \<Rightarrow> string \<Rightarrow> int \<Rightarrow> bool \<Rightarrow> error + 'g dist" where
  "parse_irm F L dist_str mx pop_mode =
     (if find_sub '':'' dist_str = None then
        (case split dist_str '','' of
           Inl e \<Rightarrow> Inl e
         | Inr tokens \<Rightarrow>
            (case those (map (stod L) tokens) of
               None \<Rightarrow> Inl InvalidArgument
             | Some parsed \<Rightarrow>
                 (let vals = normalise_vec F parsed
                  in if \<not> pop_mode then Inr (address_sampler F L vals mx)
                     else Inr (popularity_sampler F L vals))))
      else
        (case split dist_str '':'' of
           Inl e \<Rightarrow> Inl e
         | Inr args \<Rightarrow>
            if length args \<noteq> 2 then Inl FatalError
            else
             (case split (args ! 1) '','' of
                Inl e \<Rightarrow> Inl e
              | Inr dist_args \<Rightarrow>
                 if args ! 0 = ''pareto'' then
                   (if length dist_args \<noteq> 3 then Inl FatalError
                    else case stod L (dist_args ! 0) of
                      None \<Rightarrow> Inl InvalidArgument
                    | Some xm \<Rightarrow>
                       (case stod L (dist_args ! 1) of
                          None \<Rightarrow> Inl InvalidArgument
                        | Some alpha \<Rightarrow>
                           (case stoi L (dist_args ! 2) of
                              None \<Rightarrow> Inl InvalidArgument
                            | Some n \<Rightarrow> pareto_dist F L xm alpha n mx)))
                 else if args ! 0 = ''zipf'' then
                   (if length dist_args \<noteq> 2 then Inl FatalError
                    else case stod L (dist_args ! 0) of
                      None \<Rightarrow> Inl InvalidArgument
                    | Some alpha \<Rightarrow>
                       (case stoi L (dist_args ! 1) of
                          None \<Rightarrow> Inl InvalidArgument
                        | Some n \<Rightarrow> zipf_dist F L alpha n mx))
                 else if args ! 0 = ''uniform'' then Inr (uniform_dist L mx)
                 else if args ! 0 = ''normal'' then
                   (if length dist_args \<noteq> 2 then Inl FatalError
                    else case stod L (dist_args ! 0) of
                      None \<Rightarrow> Inl InvalidArgument
                    | Some mu \<Rightarrow>
                       (case stod L (dist_args ! 1) of
                          None \<Rightarrow> Inl InvalidArgument
                        | Some sigma \<Rightarrow> Inr (normal_dist F L mu sigma mx)))
                 else Inl FatalError)))"

subsection \<open>Heap algorithms of the standard library\<close>

text \<open>
  \<^verbatim>\<open>std::make_heap\<close>, \<^verbatim>\<open>std::push_heap\<close> and \<^verbatim>\<open>std::pop_heap\<close> are library code.
  The standard fixes them up to the heap property with respect to the comparator
  (no parent compares less than a child); the definitions below are the usual
  array implementation with children of \<open>i\<close> at \<open>2 i + 1\<close> and \<open>2 i + 2\<close>.
\<close>

definition iter_swap :: "'a list \<Rightarrow> nat \<Rightarrow> nat \<Rightarrow> 'a list" where
  "iter_swap xs i j = xs[i := xs ! j, j := xs ! i]"

function sift_up :: "('a \<Rightarrow> 'a \<Rightarrow> bool) \<Rightarrow> 'a list \<Rightarrow> nat \<Rightarrow> 'a list" where
  "sift_up cmp h i =
     (if 0 < i \<and> cmp (h ! ((i - 1) div 2)) (h ! i)
      then sift_up cmp (iter_swap h ((i - 1) div 2) i) ((i - 1) div 2)
      else h)"
  by pat_completeness auto
termination
  by (relation "measure (\<lambda>(cmp, h, i). i)") auto

definition pick_child :: "('a \<Rightarrow> 'a \<Rightarrow> bool) \<Rightarrow> 'a list \<Rightarrow> nat \<Rightarrow> nat \<Rightarrow> nat" where
  "pick_child cmp h n i =
     (if 2 * i + 2 < n \<and> \<not> cmp (h ! (2 * i + 2)) (h ! (2 * i + 1))
      then 2 * i + 2 else 2 * i + 1)"

function sift_down :: "('a \<Rightarrow> 'a \<Rightarrow> bool) \<Rightarrow> 'a list \<Rightarrow> nat \<Rightarrow> nat \<Rightarrow> 'a list" where
  "sift_down cmp h n i =
     (if 2 * i + 1 < n \<and> cmp (h ! i) (h ! pick_child cmp h n i)
      then sift_down cmp (iter_swap h i (pick_child cmp h n i)) n (pick_child cmp h n i)
      else h)"
  by pat_completeness auto
termination
  by (relation "measure (\<lambda>(cmp, h, n, i). n - i)") (auto simp: pick_child_def)

fun heapify :: "('a \<Rightarrow> 'a \<Rightarrow> bool) \<Rightarrow> 'a list \<Rightarrow> nat \<Rightarrow> 'a list" where
  "heapify cmp h 0 = h"
| "heapify cmp h (Suc k) = heapify cmp (sift_down cmp h (length h) k) k"

definition make_heap :: "('a \<Rightarrow> 'a \<Rightarrow> bool) \<Rightarrow> 'a list \<Rightarrow> 'a list" where
  "make_heap cmp h = heapify cmp h (length h div 2)"

definition push_heap :: "('a \<Rightarrow> 'a \<Rightarrow> bool) \<Rightarrow> 'a list \<Rightarrow> 'a list" where
  "push_heap cmp h = sift_up cmp h (length h - 1)"

definition pop_heap :: "('a \<Rightarrow> 'a \<Rightarrow> bool) \<Rightarrow> 'a list \<Rightarrow> 'a list" where
  "pop_heap cmp h =
     (if length h \<le> 1 then h
      else sift_down cmp (iter_swap h 0 (length h - 1)) (length h - 1) 0)"

subsection \<open>\<^verbatim>\<open>tracegen.cc\<close>: blended single-group generation\<close>

record tadr =
  ird :: int
  addr :: int

definition tadr_cmp :: "('a tadr_scheme) \<Rightarrow> ('a tadr_scheme) \<Rightarrow> bool" where
  "tadr_cmp a b = (ird a > ird b)"

text \<open>\<^verbatim>\<open>heap.back()\<close> on an empty vector is undefined; the model reports it.\<close>

definition heappop :: "tadr list \<Rightarrow> error + (tadr \<times> tadr list)" where
  "heappop heap =
     (if heap = [] then Inl OutOfBounds
      else let heap' = pop_heap tadr_cmp heap in Inr (last heap', butlast heap'))"

definition heappush :: "tadr list \<Rightarrow> int \<Rightarrow> int \<Rightarrow> tadr list" where
  "heappush heap i a = push_heap tadr_cmp (heap @ [\<lparr>ird = i, addr = a\<rparr>])"

record 'g gen_state =
  irds :: "tadr list"
  trace :: "int list"
  rng :: 'g

text \<open>The set-up loop \<^verbatim>\<open>for (i64 a = 0; a < addrs; a++) irds.push_back({d_ird(rng), a})\<close>.\<close>

function init_irds :: "'g dist \<Rightarrow> int \<Rightarrow> int \<Rightarrow> tadr list \<times> 'g \<Rightarrow> tadr list \<times> 'g" where
  "init_irds d_ird addrs a (h, g) =
     (if a < addrs
      then init_irds d_ird addrs (a + 1) (h @ [\<lparr>ird = fst (d_ird g), addr = a\<rparr>], snd (d_ird g))
      else (h, g))"
  by pat_completeness auto
termination
  by (relation "measure (\<lambda>(d_ird, addrs, a, s). nat (addrs - a))") auto

text \<open>
  One iteration of the main loop. \<open>d_is_irm\<close> is the draw of
  \<^verbatim>\<open>std::uniform_real_distribution<>(0, 1)\<close> on the engine.
\<close>

definition gen_step ::
  "int \<Rightarrow> real \<Rightarrow> 'g dist \<Rightarrow> 'g dist \<Rightarrow> ('g \<Rightarrow> real \<times> 'g) \<Rightarrow> 'g gen_state \<Rightarrow> error + 'g gen_state" where
  "gen_step addrs p_irm d_ird d_irm d_is_irm st =
     (let (u, g1) = d_is_irm (rng st) in
      if u < p_irm then
        (let (a, g2) = d_irm g1 in
         if \<not> a < addrs then Inl AssertionFailed
         else Inr (st\<lparr>trace := trace st @ [a], rng := g2\<rparr>))
      else
        (let (ird_sample, g2) = d_ird g1 in
         if \<not> (ird_sample \<ge> 0 \<and> ird_sample < addrs) then Inl AssertionFailed
         else case heappop (irds st) of
                Inl e \<Rightarrow> Inl e
              | Inr (min_ird, h1) \<Rightarrow>
                  Inr \<lparr>irds = heappush h1 (ird min_ird + ird_sample) (addr min_ird),
                       trace = trace st @ [addr min_ird],
                       rng = g2\<rparr>))"

function gen_loop ::
  "int \<Rightarrow> int \<Rightarrow> real \<Rightarrow> 'g dist \<Rightarrow> 'g dist \<Rightarrow> ('g \<Rightarrow> real \<times> 'g) \<Rightarrow> int \<Rightarrow> 'g gen_state
     \<Rightarrow> error + 'g gen_state" where
  "gen_loop addrs len p_irm d_ird d_irm d_is_irm i st =
     (if i < len then
        (case gen_step addrs p_irm d_ird d_irm d_is_irm st of
           Inl e \<Rightarrow> Inl e
         | Inr st' \<Rightarrow> gen_loop addrs len p_irm d_ird d_irm d_is_irm (i + 1) st')
      else Inr st)"
  by pat_completeness auto
termination
  by (relation "measure (\<lambda>(addrs, len, p_irm, d_ird, d_irm, d_is_irm, i, st). nat (len - i))") auto

definition gen_setup :: "int \<Rightarrow> 'g dist \<Rightarrow> 'g \<Rightarrow> 'g gen_state" where
  "gen_setup addrs d_ird g =
     (let (h, g') = init_irds d_ird addrs 0 ([], g)
      in \<lparr>irds = make_heap tadr_cmp h, trace = [], rng = g'\<rparr>)"

definition gen_run ::
  "int \<Rightarrow> int \<Rightarrow> real \<Rightarrow> 'g dist \<Rightarrow> 'g dist \<Rightarrow> ('g \<Rightarrow> real \<times> 'g) \<Rightarrow> 'g \<Rightarrow> error + 'g gen_state" where
  "gen_run addrs len p_irm d_ird d_irm d_is_irm g =
     gen_loop addrs len p_irm d_ird d_irm d_is_irm 0 (gen_setup addrs d_ird g)"

definition gen_addresses ::
  "int \<Rightarrow> int \<Rightarrow> real \<Rightarrow> 'g dist \<Rightarrow> 'g dist \<Rightarrow> ('g \<Rightarrow> real \<times> 'g) \<Rightarrow> 'g \<Rightarrow> error + int list" where
  "gen_addresses addrs len p_irm d_ird d_irm d_is_irm g =
     map_sum id trace (gen_run addrs len p_irm d_ird d_irm d_is_irm g)"

subsection \<open>\<^verbatim>\<open>2d-tracegen.cc\<close>: the second copy of blended generation\<close>

text \<open>
  \<^verbatim>\<open>td_gen\<close> uses its own \<^verbatim>\<open>tadr\<close>, \<^verbatim>\<open>heappop\<close> and \<^verbatim>\<open>heappush\<close>, textually the same as
  those of \<^verbatim>\<open>tracegen.cc\<close>; its loop body is an \<^verbatim>\<open>if\<close>/\<^verbatim>\<open>else\<close> instead of an early
  \<^verbatim>\<open>continue\<close>.
\<close>

definition td_step ::
  "int \<Rightarrow> real \<Rightarrow> 'g dist \<Rightarrow> 'g dist \<Rightarrow> ('g \<Rightarrow> real \<times> 'g) \<Rightarrow> 'g gen_state \<Rightarrow> error + 'g gen_state" where
  "td_step addrs p_irm d_ird d_irm d_is_irm st =
     (if fst (d_is_irm (rng st)) < p_irm then
        (let (a, g2) = d_irm (snd (d_is_irm (rng st))) in
         if \<not> a < addrs then Inl AssertionFailed
         else Inr (st\<lparr>trace := trace st @ [a], rng := g2\<rparr>))
      else
        (let (ird_sample, g2) = d_ird (snd (d_is_irm (rng st))) in
         if \<not> (ird_sample \<ge> 0 \<and> ird_sample < addrs) then Inl AssertionFailed
         else case heappop (irds st) of
                Inl e \<Rightarrow> Inl e
              | Inr (min_ird, h1) \<Rightarrow>
                  Inr \<lparr>irds = heappush h1 (ird min_ird + ird_sample) (addr min_ird),
                       trace = trace st @ [addr min_ird],
                       rng = g2\<rparr>))"

function td_loop ::
  "int \<Rightarrow> int \<Rightarrow> real \<Rightarrow> 'g dist \<Rightarrow> 'g dist \<Rightarrow> ('g \<Rightarrow> real \<times> 'g) \<Rightarrow> int \<Rightarrow> 'g gen_state
     \<Rightarrow> error + 'g gen_state" where
  "td_loop addrs len p_irm d_ird d_irm d_is_irm i st =
     (if i < len then
        (case td_step addrs p_irm d_ird d_irm d_is_irm st of
           Inl e \<Rightarrow> Inl e
         | Inr st' \<Rightarrow> td_loop addrs len p_irm d_ird d_irm d_is_irm (i + 1) st')
      else Inr st)"
  by pat_completeness auto
termination
  by (relation "measure (\<lambda>(addrs, len, p_irm, d_ird, d_irm, d_is_irm, i, st). nat (len - i))") auto

definition td_run ::
  "int \<Rightarrow> int \<Rightarrow> real \<Rightarrow> 'g dist \<Rightarrow> 'g dist \<Rightarrow> ('g \<Rightarrow> real \<times> 'g) \<Rightarrow> 'g \<Rightarrow> error + 'g gen_state" where
  "td_run addrs len p_irm d_ird d_irm d_is_irm g =
     td_loop addrs len p_irm d_ird d_irm d_is_irm 0 (gen_setup addrs d_ird g)"

definition td_gen ::
  "int \<Rightarrow> int \<Rightarrow> real \<Rightarrow> 'g dist \<Rightarrow> 'g dist \<Rightarrow> ('g \<Rightarrow> real \<times> 'g) \<Rightarrow> 'g \<Rightarrow> error + int list" where
  "td_gen addrs len p_irm d_ird d_irm d_is_irm g =
     map_sum id trace (td_run addrs len p_irm d_ird d_irm d_is_irm g)"

subsection \<open>\<^verbatim>\<open>kd-tracegen.cc\<close>: grouped generation\<close>

record group_tadr = tadr +
  group :: int

definition group_tadr_cmp :: "group_tadr \<Rightarrow> group_tadr \<Rightarrow> bool" where
  "group_tadr_cmp a b = (ird a > ird b)"

definition kd_heappop :: "group_tadr list \<Rightarrow> error + (group_tadr \<times> group_tadr list)" where
  "kd_heappop heap =
     (if heap = [] then Inl OutOfBounds
      else let heap' = pop_heap group_tadr_cmp heap in Inr (last heap', butlast heap'))"

definition kd_heappush :: "group_tadr list \<Rightarrow> int \<Rightarrow> int \<Rightarrow> int \<Rightarrow> group_tadr list" where
  "kd_heappush heap i a gr = push_heap group_tadr_cmp (heap @ [\<lparr>ird = i, addr = a, group = gr\<rparr>])"

text \<open>Conversion of an \<^verbatim>\<open>i64\<close> (or \<^verbatim>\<open>size_t\<close>) to the 32-bit \<^verbatim>\<open>int\<close>: two's complement, modular.\<close>

definition narrow :: "int \<Rightarrow> int" where
  "narrow x = sint (word_of_int x :: 32 word)"

text \<open>C++ integer division truncates towards zero; the divisor is checked by the caller.\<close>

definition tdiv :: "int \<Rightarrow> int \<Rightarrow> int" where
  "tdiv a b = sgn a * sgn b * (\<bar>a\<bar> div \<bar>b\<bar>)"

text \<open>
  The three lines shared by set-up and step:
  \<^verbatim>\<open>scaled = (pop[g] == 0.0 ? raw_ird : (double)raw_ird / pop[g]); v = llround(scaled); if (v < 0) v = 0;\<close>
\<close>

definition scale_ird :: "'f f64_ops \<Rightarrow> 'f \<Rightarrow> int \<Rightarrow> int" where
  "scale_ird F p raw_ird =
     (let scaled = (if f_eq F p (f_of_i64 F 0) then f_of_i64 F raw_ird
                    else f_div F (f_of_i64 F raw_ird) p);
          v = f_llround F scaled
      in if v < 0 then 0 else v)"

text \<open>The group index of address \<open>a\<close>: \<^verbatim>\<open>int group = a / group_size; if (group >= groups) group = groups - 1;\<close>\<close>

definition group_of :: "int \<Rightarrow> int \<Rightarrow> int \<Rightarrow> error + int" where
  "group_of groups group_size a =
     (if group_size = 0 then Inl DivisionByZero
      else let gr = narrow (tdiv a group_size)
           in Inr (if gr \<ge> groups then groups - 1 else gr))"

text \<open>
  A draw of group \<open>gr\<close>: \<^verbatim>\<open>int raw_ird = irds[gr](rng)\<close> followed by the scaling with
  \<^verbatim>\<open>pop[gr]\<close>. Both vectors are indexed without a check.
\<close>

definition kd_draw ::
  "'f f64_ops \<Rightarrow> 'g dist list \<Rightarrow> 'f list \<Rightarrow> int \<Rightarrow> 'g \<Rightarrow> error + (int \<times> 'g)" where
  "kd_draw F ds pop gr g =
     (if gr < 0 \<or> gr \<ge> int (length ds) then Inl OutOfBounds
      else let (s, g') = (ds ! nat gr) g; raw_ird = narrow s
           in if gr \<ge> int (length pop) then Inl OutOfBounds
              else Inr (scale_ird F (pop ! nat gr) raw_ird, g'))"

function kd_init ::
  "'f f64_ops \<Rightarrow> 'g dist list \<Rightarrow> 'f list \<Rightarrow> int \<Rightarrow> int \<Rightarrow> int \<Rightarrow> int
     \<Rightarrow> group_tadr list \<times> 'g \<Rightarrow> error + (group_tadr list \<times> 'g)" where
  "kd_init F ds pop addrs groups group_size a (h, g) =
     (if a < addrs then
        (case group_of groups group_size a of
           Inl e \<Rightarrow> Inl e
         | Inr gr \<Rightarrow>
            (case kd_draw F ds pop gr g of
               Inl e \<Rightarrow> Inl e
             | Inr (init_ird, g') \<Rightarrow>
                 kd_init F ds pop addrs groups group_size (a + 1)
                   (h @ [\<lparr>ird = init_ird, addr = a, group = gr\<rparr>], g')))
      else Inr (h, g))"
  by pat_completeness auto
termination
  by (relation "measure (\<lambda>(F, ds, pop, addrs, groups, group_size, a, s). nat (addrs - a))") auto

record 'g kd_state =
  heap :: "group_tadr list"
  ktrace :: "int list"
  krng :: 'g

definition kd_step ::
  "'f f64_ops \<Rightarrow> 'g dist list \<Rightarrow> 'f list \<Rightarrow> 'g kd_state \<Rightarrow> error + 'g kd_state" where
  "kd_step F ds pop st =
     (case kd_heappop (heap st) of
        Inl e \<Rightarrow> Inl e
      | Inr (entry, h1) \<Rightarrow>
         (case kd_draw F ds pop (group entry) (krng st) of
            Inl e \<Rightarrow> Inl e
          | Inr (add_ird, g') \<Rightarrow>
              Inr \<lparr>heap = kd_heappush h1 (ird entry + add_ird) (addr entry) (group entry),
                   ktrace = ktrace st @ [addr entry],
                   krng = g'\<rparr>))"

function kd_loop ::
  "'f f64_ops \<Rightarrow> 'g dist list \<Rightarrow> 'f list \<Rightarrow> int \<Rightarrow> int \<Rightarrow> 'g kd_state
     \<Rightarrow> error + 'g kd_state" where
  "kd_loop F ds pop len i st =
     (if i < len then
        (case kd_step F ds pop st of
           Inl e \<Rightarrow> Inl e
         | Inr st' \<Rightarrow> kd_loop F ds pop len (i + 1) st')
      else Inr st)"
  by pat_completeness auto
termination
  by (relation "measure (\<lambda>(F, ds, pop, len, i, st). nat (len - i))") auto

text \<open>
  Set-up of \<^verbatim>\<open>kd_gen\<close> up to \<^verbatim>\<open>std::make_heap\<close>. \<^verbatim>\<open>heap.reserve(addrs)\<close> converts
  \<open>addrs\<close> to \<^verbatim>\<open>size_t\<close>; a negative value exceeds \<^verbatim>\<open>max_size()\<close> and
  \<^verbatim>\<open>std::length_error\<close> is thrown. Exhaustion of memory is not modelled.
\<close>

definition kd_setup ::
  "'f f64_ops \<Rightarrow> int \<Rightarrow> 'g dist list \<Rightarrow> 'f list \<Rightarrow> 'g \<Rightarrow> error + 'g kd_state" where
  "kd_setup F addrs ds pop g =
     (let groups = narrow (int (length ds)) in
      if groups = 0 then Inl DivisionByZero
      else let group_size = tdiv addrs groups in
        if addrs < 0 then Inl LengthError
        else case kd_init F ds pop addrs groups group_size 0 ([], g) of
               Inl e \<Rightarrow> Inl e
             | Inr (h, g') \<Rightarrow>
                 Inr \<lparr>heap = make_heap group_tadr_cmp h, ktrace = [], krng = g'\<rparr>)"

definition kd_run ::
  "'f f64_ops \<Rightarrow> int \<Rightarrow> int \<Rightarrow> 'g dist list \<Rightarrow> 'f list \<Rightarrow> 'g \<Rightarrow> error + 'g kd_state" where
  "kd_run F addrs len ds pop g =
     (case kd_setup F addrs ds pop g of
        Inl e \<Rightarrow> Inl e
      | Inr st \<Rightarrow> if len < 0 then Inl LengthError else kd_loop F ds pop len 0 st)"

definition kd_gen ::
  "'f f64_ops \<Rightarrow> int \<Rightarrow> int \<Rightarrow> 'g dist list \<Rightarrow> 'f list \<Rightarrow> 'g \<Rightarrow> error + int list" where
  "kd_gen F addrs len ds pop g = map_sum id ktrace (kd_run F addrs len ds pop g)"


subsection \<open>The heap invariant\<close>

text \<open>
  A scheduling heap for \<open>N\<close> addresses holds \<open>N\<close> entries whose addresses are
  \<open>0, \<dots>, N - 1\<close>, each once.
\<close>

definition heap_inv :: "int \<Rightarrow> 'a tadr_scheme list \<Rightarrow> bool" where
  "heap_inv N h \<longleftrightarrow> length h = nat N \<and> mset (map addr h) = mset [0..N - 1]"

subsection \<open>Example samplers\<close>

text \<open>
  A concrete random state for evaluating the definitions: the list of the raw values
  still to come. \<open>raw_dist\<close> returns the next raw value, \<open>raw_unit\<close> a tenth of its last
  decimal digit, a real of the half-open unit interval.
\<close>

definition take_raw :: "nat list \<Rightarrow> nat \<times> nat list" where
  "take_raw g = (case g of [] \<Rightarrow> (0, []) | x # xs \<Rightarrow> (x, xs))"

definition raw_dist :: "nat list dist" where
  "raw_dist g = (int (fst (take_raw g)), snd (take_raw g))"

definition raw_unit :: "nat list \<Rightarrow> real \<times> nat list" where
  "raw_unit g = (real (fst (take_raw g) mod 10) / 10, snd (take_raw g))"

subsection \<open>The sequence of direct IRM draws\<close>

text \<open>
  What a generator would emit if every step drew the blend variable and then took the
  address straight from the IRM sampler, without a heap: the first \<open>n\<close> such draws from
  random state \<open>g\<close>.
\<close>

fun irm_draws :: "'g dist \<Rightarrow> ('g \<Rightarrow> real \<times> 'g) \<Rightarrow> nat \<Rightarrow> 'g \<Rightarrow> int list" where
  "irm_draws d_irm d_is_irm 0 g = []"
| "irm_draws d_irm d_is_irm (Suc n) g =
     fst (d_irm (snd (d_is_irm g))) # irm_draws d_irm d_is_irm n (snd (d_irm (snd (d_is_irm g))))"

text \<open>A sampler that returns the same value at every draw and leaves the random state alone.\<close>

definition const_dist :: "int \<Rightarrow> 'g dist" where
  "const_dist c g = (c, g)"

subsection \<open>Interval tables\<close>

text \<open>An address is covered by a table when it lies in one of its intervals.\<close>

fun covered :: "(int \<times> int) list \<Rightarrow> int \<Rightarrow> bool" where
  "covered [] x = False"
| "covered ((lower, upper) # ivs) x = ((lower \<le> x \<and> x \<le> upper) \<or> covered ivs x)"

text \<open>
  The table of \<open>classes\<close> consecutive intervals of width \<open>mx div classes\<close> that starts at
  address 0: the interval of class \<open>i\<close> (counted from 1) runs from \<open>(i - 1) * width\<close> to
  \<open>i * width - 1\<close>.
\<close>

definition interval_table :: "int \<Rightarrow> int \<Rightarrow> (int \<times> int) list" where
  "interval_table classes mx =
     map (\<lambda>i. ((i - 1) * (mx div classes), i * (mx div classes) - 1)) [1..classes]"

subsection \<open>An example library\<close>

text \<open>
  Exact arithmetic on the reals, as an instance of the operations on doubles: the
  arithmetic of the machine agrees with it wherever no operation rounds and nothing is
  divided by zero, which is so for the dyadic values of the evaluated examples.
  \<open>llround\<close> rounds a real to the nearest integer, halves away from zero, as
  \<^verbatim>\<open>std::llround\<close> and \<^verbatim>\<open>std::round\<close> do.
\<close>

definition llround :: "real \<Rightarrow> int" where
  "llround x = (if x < 0 then - \<lfloor>- x + 1 / 2\<rfloor> else \<lfloor>x + 1 / 2\<rfloor>)"

definition exact_ops :: "real f64_ops" where
  "exact_ops =
     \<lparr>f_of_i64 = real_of_int,
      f_add = (\<lambda>x y. x + y),
      f_mul = (\<lambda>x y. x * y),
      f_div = (\<lambda>x y. x / y),
      f_pow = (\<lambda>x y. x powr y),
      f_less = (\<lambda>x y. x < y),
      f_eq = (\<lambda>x y. x = y),
      f_llround = llround,
      f_floor = (\<lambda>x. \<lfloor>x\<rfloor>),
      f_round = llround\<rparr>"

text \<open>
  A concrete instance of the library parts for evaluation, on the list of raw values: the
  discrete distribution takes the next raw value modulo the number of weights, the
  uniform integer distribution reduces it into the interval, and the string conversions
  read unsigned decimal numerals.
\<close>

fun digits_val :: "string \<Rightarrow> nat \<Rightarrow> nat option" where
  "digits_val [] acc = Some acc"
| "digits_val (c # cs) acc =
     (if 48 \<le> (of_char c :: nat) \<and> (of_char c :: nat) \<le> 57
      then digits_val cs (10 * acc + (of_char c - 48)) else None)"

definition ex_stoi :: "string \<Rightarrow> int option" where
  "ex_stoi s = (if s = [] then None else map_option int (digits_val s 0))"

definition ex_stod :: "string \<Rightarrow> real option" where
  "ex_stod s = (if s = [] then None else map_option real (digits_val s 0))"

definition ex_lib :: "(nat list, real) stdlib" where
  "ex_lib =
     \<lparr>discrete_distribution = (\<lambda>ws g. (fst (take_raw g) mod length ws, snd (take_raw g))),
      uniform_int_distribution =
        (\<lambda>a b g. (a + int (fst (take_raw g)) mod (b - a + 1), snd (take_raw g))),
      normal_distribution = (\<lambda>m s g. (m + s * real (fst (take_raw g)), snd (take_raw g))),
      stod = ex_stod,
      stoi = ex_stoi\<rparr>"

section \<open>Properties\<close>

declare sift_up.simps [simp del] sift_down.simps [simp del] init_irds.simps [simp del]
  gen_loop.simps [simp del] td_loop.simps [simp del] kd_init.simps [simp del] kd_loop.simps [simp del]
  split_from.simps [simp del]

lemma length_iter_swap [simp]: "length (iter_swap xs i j) = length xs"
  by (simp add: iter_swap_def)

lemma mset_iter_swap:
  "i < length xs \<Longrightarrow> j < length xs \<Longrightarrow> mset (iter_swap xs i j) = mset xs"
  unfolding iter_swap_def by (rule mset_swap)

lemma length_sift_up [simp]: "length (sift_up cmp h i) = length h"
proof (induction cmp h i rule: sift_up.induct)
  case (1 cmp h i)
  then show ?case by (subst sift_up.simps) simp
qed

lemma mset_sift_up: "i < length h \<Longrightarrow> mset (sift_up cmp h i) = mset h"
proof (induction cmp h i rule: sift_up.induct)
  case (1 cmp h i)
  show ?case
  proof (cases "0 < i \<and> cmp (h ! ((i - 1) div 2)) (h ! i)")
    case True
    with "1.prems" have p: "(i - 1) div 2 < length h" by auto
    from True have "sift_up cmp h i = sift_up cmp (iter_swap h ((i - 1) div 2) i) ((i - 1) div 2)"
      by (subst sift_up.simps) simp
    also have "mset \<dots> = mset (iter_swap h ((i - 1) div 2) i)"
      using "1.IH" True p by simp
    also have "\<dots> = mset h"
      using p "1.prems" by (rule mset_iter_swap)
    finally show ?thesis .
  next
    case False
    then show ?thesis by (subst sift_up.simps) auto
  qed
qed

lemma pick_child_bounds: "2 * i + 1 < n \<Longrightarrow> i < pick_child cmp h n i \<and> pick_child cmp h n i < n"
  by (simp add: pick_child_def)

lemma length_sift_down [simp]: "length (sift_down cmp h n i) = length h"
proof (induction cmp h n i rule: sift_down.induct)
  case (1 cmp h n i)
  then show ?case by (subst sift_down.simps) simp
qed

lemma mset_sift_down: "n \<le> length h \<Longrightarrow> mset (sift_down cmp h n i) = mset h"
proof (induction cmp h n i rule: sift_down.induct)
  case (1 cmp h n i)
  show ?case
  proof (cases "2 * i + 1 < n \<and> cmp (h ! i) (h ! pick_child cmp h n i)")
    case True
    then have b: "i < pick_child cmp h n i" "pick_child cmp h n i < n"
      using pick_child_bounds [of i n cmp h] by auto
    from True have "sift_down cmp h n i
        = sift_down cmp (iter_swap h i (pick_child cmp h n i)) n (pick_child cmp h n i)"
      by (subst sift_down.simps) simp
    also have "mset \<dots> = mset (iter_swap h i (pick_child cmp h n i))"
      using "1.IH" True "1.prems" by simp
    also have "\<dots> = mset h"
      using b "1.prems" by (intro mset_iter_swap) auto
    finally show ?thesis .
  next
    case False
    then show ?thesis by (subst sift_down.simps) auto
  qed
qed

lemma length_heapify [simp]: "length (heapify cmp h k) = length h"
  by (induction k arbitrary: h) simp_all

lemma mset_heapify [simp]: "mset (heapify cmp h k) = mset h"
  by (induction k arbitrary: h) (simp_all add: mset_sift_down)

lemma length_make_heap [simp]: "length (make_heap cmp h) = length h"
  by (simp add: make_heap_def)

lemma mset_make_heap [simp]: "mset (make_heap cmp h) = mset h"
  by (simp add: make_heap_def)

lemma length_push_heap [simp]: "length (push_heap cmp h) = length h"
  by (simp add: push_heap_def)

lemma mset_push_heap [simp]: "mset (push_heap cmp h) = mset h"
proof (cases "h = []")
  case True
  then show ?thesis by (simp add: push_heap_def sift_up.simps [of cmp "[]" 0])
next
  case False
  then have "length h - 1 < length h" by (cases h) auto
  then show ?thesis unfolding push_heap_def by (rule mset_sift_up)
qed

lemma length_pop_heap [simp]: "length (pop_heap cmp h) = length h"
  by (simp add: pop_heap_def)

lemma mset_pop_heap [simp]: "mset (pop_heap cmp h) = mset h"
proof (cases "length h \<le> 1")
  case True
  then show ?thesis by (simp add: pop_heap_def)
next
  case False
  then have b: "0 < length h" "length h - 1 < length h" by auto
  have "mset (pop_heap cmp h) = mset (iter_swap h 0 (length h - 1))"
    using False by (simp add: pop_heap_def mset_sift_down)
  also have "\<dots> = mset h" using b by (rule mset_iter_swap)
  finally show ?thesis .
qed


lemma mset_pop_back:
  assumes "h \<noteq> []"
  shows "add_mset (last (pop_heap cmp h)) (mset (butlast (pop_heap cmp h))) = mset h"
proof -
  from assms have ne: "pop_heap cmp h \<noteq> []"
    by (metis length_pop_heap length_0_conv)
  have "add_mset (last (pop_heap cmp h)) (mset (butlast (pop_heap cmp h)))
      = mset (butlast (pop_heap cmp h) @ [last (pop_heap cmp h)])"
    by simp
  also have "butlast (pop_heap cmp h) @ [last (pop_heap cmp h)] = pop_heap cmp h"
    using ne by (rule append_butlast_last_id)
  finally show ?thesis by simp
qed

lemma heappop_mset: "heappop h = Inr (e, h') \<Longrightarrow> mset h = add_mset e (mset h')"
  using mset_pop_back [of h tadr_cmp] by (auto simp: heappop_def Let_def split: if_splits)

lemma kd_heappop_mset: "kd_heappop h = Inr (e, h') \<Longrightarrow> mset h = add_mset e (mset h')"
  using mset_pop_back [of h group_tadr_cmp] by (auto simp: kd_heappop_def Let_def split: if_splits)

lemma heappush_mset: "mset (heappush h i a) = add_mset \<lparr>ird = i, addr = a\<rparr> (mset h)"
  by (simp add: heappush_def)

lemma kd_heappush_mset:
  "mset (kd_heappush h i a gr) = add_mset \<lparr>ird = i, addr = a, group = gr\<rparr> (mset h)"
  by (simp add: kd_heappush_def)

lemma heap_invI: "mset (map addr h) = mset [0..N - 1] \<Longrightarrow> heap_inv N h"
proof -
  assume a: "mset (map addr h) = mset [0..N - 1]"
  then have "size (mset (map addr h)) = size (mset [0..N - 1])" by simp
  then have "length h = nat N" by simp
  with a show ?thesis by (simp add: heap_inv_def)
qed

lemma init_irds_addr:
  "map addr (fst (init_irds d addrs a s)) = map addr (fst s) @ [a..addrs - 1]"
proof (induction d addrs a s rule: init_irds.induct)
  case (1 d addrs a h g)
  show ?case
  proof (cases "a < addrs")
    case True
    then have "[a..addrs - 1] = a # [a + 1..addrs - 1]"
      by (simp add: upto_rec1)
    with True "1.IH" show ?thesis by (subst init_irds.simps) simp
  next
    case False
    then show ?thesis by (subst init_irds.simps) simp
  qed
qed

lemma gen_setup_inv: "heap_inv N (irds (gen_setup N d_ird g))"
proof -
  have "map addr (fst (init_irds d_ird N 0 ([], g))) = [0..N - 1]"
    using init_irds_addr [of d_ird N 0 "([], g)"] by simp
  then have "mset (map addr (fst (init_irds d_ird N 0 ([], g)))) = mset [0..N - 1]"
    by simp
  then have "mset (map addr (make_heap tadr_cmp (fst (init_irds d_ird N 0 ([], g))))) = mset [0..N - 1]"
    by (simp only: mset_map mset_make_heap)
  then show ?thesis
    by (intro heap_invI) (simp add: gen_setup_def case_prod_beta)
qed

lemma gen_step_inv:
  assumes "gen_step addrs p_irm d_ird d_irm d_is_irm st = Inr st'" and "heap_inv N (irds st)"
  shows "heap_inv N (irds st')"
proof (cases "fst (d_is_irm (rng st)) < p_irm")
  case True
  with assms show ?thesis
    by (auto simp: gen_step_def Let_def split: prod.splits if_splits)
next
  case False
  with assms(1) obtain e h1 s where
    pop: "heappop (irds st) = Inr (e, h1)" and
    st': "irds st' = heappush h1 (ird e + s) (addr e)"
    by (auto simp: gen_step_def Let_def split: prod.splits if_splits sum.splits)
  have "mset (map addr (irds st')) = add_mset (addr e) (mset (map addr h1))"
    by (simp only: st' mset_map heappush_mset) simp
  also have "\<dots> = mset (map addr (irds st))"
    by (simp only: mset_map heappop_mset [OF pop]) simp
  finally show ?thesis using assms(2) by (intro heap_invI) (simp add: heap_inv_def)
qed

lemma gen_loop_inv:
  "gen_loop addrs len p_irm d_ird d_irm d_is_irm i st = Inr st' \<Longrightarrow> heap_inv N (irds st)
     \<Longrightarrow> heap_inv N (irds st')"
proof (induction addrs len p_irm d_ird d_irm d_is_irm i st rule: gen_loop.induct)
  case (1 addrs len p_irm d_ird d_irm d_is_irm i st)
  show ?case
  proof (cases "i < len")
    case True
    with "1.prems"(1) obtain st1 where
      s1: "gen_step addrs p_irm d_ird d_irm d_is_irm st = Inr st1" and
      l1: "gen_loop addrs len p_irm d_ird d_irm d_is_irm (i + 1) st1 = Inr st'"
      by (subst (asm) gen_loop.simps) (auto split: sum.splits)
    from gen_step_inv [OF s1 "1.prems"(2)] "1.IH" [OF True s1 l1] show ?thesis by simp
  next
    case False
    with "1.prems" show ?thesis by (subst (asm) gen_loop.simps) simp
  qed
qed

lemma gen_loop_stop:
  "\<not> i < len \<Longrightarrow> gen_loop addrs len p_irm d_ird d_irm d_is_irm i st = Inr st"
  by (subst gen_loop.simps) simp

lemma kd_loop_stop: "\<not> i < len \<Longrightarrow> kd_loop F ds pop len i st = Inr st"
  by (subst kd_loop.simps) simp

lemma td_step_eq: "td_step = gen_step"
  by (intro ext) (simp add: td_step_def gen_step_def split: prod.split)

lemma td_loop_eq:
  "td_loop addrs len p_irm d_ird d_irm d_is_irm i st = gen_loop addrs len p_irm d_ird d_irm d_is_irm i st"
proof (induction addrs len p_irm d_ird d_irm d_is_irm i st rule: gen_loop.induct)
  case (1 addrs len p_irm d_ird d_irm d_is_irm i st)
  then show ?case
    by (subst td_loop.simps, subst gen_loop.simps) (simp add: td_step_eq split: sum.split)
qed

lemma td_run_eq: "td_run = gen_run"
  by (intro ext) (simp add: td_run_def gen_run_def td_loop_eq)


lemma kd_init_addr:
  "kd_init F ds pop addrs groups gs a s = Inr s' \<Longrightarrow>
     map addr (fst s') = map addr (fst s) @ [a..addrs - 1]"
proof (induction F ds pop addrs groups gs a s rule: kd_init.induct)
  case (1 F ds pop addrs groups gs a h g)
  show ?case
  proof (cases "a < addrs")
    case True
    with "1.prems" obtain gr v g' where
      gr: "group_of groups gs a = Inr gr" and
      dr: "kd_draw F ds pop gr g = Inr (v, g')" and
      rec: "kd_init F ds pop addrs groups gs (a + 1) (h @ [\<lparr>ird = v, addr = a, group = gr\<rparr>], g') = Inr s'"
      by (subst (asm) kd_init.simps) (auto split: sum.splits)
    from True have "[a..addrs - 1] = a # [a + 1..addrs - 1]"
      by (simp add: upto_rec1)
    with "1.IH" [OF True gr dr _ rec] show ?thesis by simp
  next
    case False
    with "1.prems" show ?thesis by (subst (asm) kd_init.simps) auto
  qed
qed

lemma kd_setup_inv:
  assumes "kd_setup F N ds pop g = Inr st"
  shows "heap_inv N (heap st)"
proof -
  from assms obtain groups h g' where
    ini: "kd_init F ds pop N groups (tdiv N groups) 0 ([], g) = Inr (h, g')" and
    st: "heap st = make_heap group_tadr_cmp h"
    by (auto simp: kd_setup_def Let_def split: if_splits sum.splits)
  from kd_init_addr [OF ini] have "mset (map addr h) = mset [0..N - 1]" by simp
  then have "mset (map addr (heap st)) = mset [0..N - 1]"
    by (simp only: st mset_map mset_make_heap)
  then show ?thesis by (rule heap_invI)
qed

lemma kd_step_inv:
  assumes "kd_step F ds pop st = Inr st'" and "heap_inv N (heap st)"
  shows "heap_inv N (heap st')"
proof -
  from assms(1) obtain e h1 v where
    pop: "kd_heappop (heap st) = Inr (e, h1)" and
    st': "heap st' = kd_heappush h1 (ird e + v) (addr e) (group e)"
    by (auto simp: kd_step_def split: sum.splits)
  have "mset (map addr (heap st')) = add_mset (addr e) (mset (map addr h1))"
    by (simp only: st' mset_map kd_heappush_mset) simp
  also have "\<dots> = mset (map addr (heap st))"
    by (simp only: mset_map kd_heappop_mset [OF pop]) simp
  finally show ?thesis using assms(2) by (intro heap_invI) (simp add: heap_inv_def)
qed

lemma kd_loop_inv:
  "kd_loop F ds pop len i st = Inr st' \<Longrightarrow> heap_inv N (heap st) \<Longrightarrow> heap_inv N (heap st')"
proof (induction F ds pop len i st rule: kd_loop.induct)
  case (1 F ds pop len i st)
  show ?case
  proof (cases "i < len")
    case True
    with "1.prems"(1) obtain st1 where
      s1: "kd_step F ds pop st = Inr st1" and
      l1: "kd_loop F ds pop len (i + 1) st1 = Inr st'"
      by (subst (asm) kd_loop.simps) (auto split: sum.splits)
    from kd_step_inv [OF s1 "1.prems"(2)] "1.IH" [OF True s1 l1] show ?thesis by simp
  next
    case False
    with "1.prems" show ?thesis by (subst (asm) kd_loop.simps) simp
  qed
qed

text \<open>
  A run of \<open>len\<close> steps passes through the final state of the run of \<open>k\<close> steps, for
  every \<open>k\<close> up to \<open>len\<close>; what holds after every run holds after every step of a run.
\<close>

lemma gen_loop_split:
  "i \<le> k \<Longrightarrow> k \<le> len \<Longrightarrow>
   gen_loop addrs len p_irm d_ird d_irm d_is_irm i st =
     (case gen_loop addrs k p_irm d_ird d_irm d_is_irm i st of
        Inl e \<Rightarrow> Inl e
      | Inr st' \<Rightarrow> gen_loop addrs len p_irm d_ird d_irm d_is_irm k st')"
proof (induction addrs k p_irm d_ird d_irm d_is_irm i st rule: gen_loop.induct)
  case (1 addrs k p_irm d_ird d_irm d_is_irm i st)
  show ?case
  proof (cases "i < k")
    case True
    with "1.prems" have il: "i < len" by simp
    have L: "gen_loop addrs len p_irm d_ird d_irm d_is_irm i st =
        (case gen_step addrs p_irm d_ird d_irm d_is_irm st of
           Inl e \<Rightarrow> Inl e
         | Inr st' \<Rightarrow> gen_loop addrs len p_irm d_ird d_irm d_is_irm (i + 1) st')"
      using il by (subst gen_loop.simps) simp
    have K: "gen_loop addrs k p_irm d_ird d_irm d_is_irm i st =
        (case gen_step addrs p_irm d_ird d_irm d_is_irm st of
           Inl e \<Rightarrow> Inl e
         | Inr st' \<Rightarrow> gen_loop addrs k p_irm d_ird d_irm d_is_irm (i + 1) st')"
      using True by (subst gen_loop.simps) simp
    show ?thesis
    proof (cases "gen_step addrs p_irm d_ird d_irm d_is_irm st")
      case (Inl e)
      then show ?thesis by (simp add: L K)
    next
      case (Inr st1)
      with True "1.IH" [OF True Inr] "1.prems" show ?thesis
        by (simp add: L K)
    qed
  next
    case False
    with "1.prems" have "i = k" by simp
    then show ?thesis by (simp add: gen_loop_stop)
  qed
qed


lemma kd_loop_split:
  "i \<le> k \<Longrightarrow> k \<le> len \<Longrightarrow>
   kd_loop F ds pop len i st =
     (case kd_loop F ds pop k i st of
        Inl e \<Rightarrow> Inl e
      | Inr st' \<Rightarrow> kd_loop F ds pop len k st')"
proof (induction F ds pop k i st rule: kd_loop.induct)
  case (1 F ds pop k i st)
  show ?case
  proof (cases "i < k")
    case True
    with "1.prems" have il: "i < len" by simp
    have L: "kd_loop F ds pop len i st =
        (case kd_step F ds pop st of Inl e \<Rightarrow> Inl e | Inr st' \<Rightarrow> kd_loop F ds pop len (i + 1) st')"
      using il by (subst kd_loop.simps) simp
    have K: "kd_loop F ds pop k i st =
        (case kd_step F ds pop st of Inl e \<Rightarrow> Inl e | Inr st' \<Rightarrow> kd_loop F ds pop k (i + 1) st')"
      using True by (subst kd_loop.simps) simp
    show ?thesis
    proof (cases "kd_step F ds pop st")
      case (Inl e)
      then show ?thesis by (simp add: L K)
    next
      case (Inr st1)
      with True "1.IH" [OF True Inr] "1.prems" show ?thesis
        by (simp add: L K)
    qed
  next
    case False
    with "1.prems" have "i = k" by simp
    then show ?thesis by (simp add: kd_loop_stop)
  qed
qed

subsection \<open>C2: the heap holds one entry per address\<close>

text \<open>
  C2: in both scheduler modes, for \<open>N > 0\<close> addresses the scheduling heap holds exactly
  \<open>N\<close> entries, one for each address \<open>0, \<dots>, N - 1\<close>, after set-up and after every
  generation step, for every trace length. A run that stops on a failed assertion or
  a trap leaves no heap; the statement is about every state that is reached. Since the
  length \<open>len\<close> is arbitrary and a run passes through the final states of all shorter
  runs (\<open>gen_loop_split\<close>, \<open>kd_loop_split\<close>), this covers the heap after each step.
\<close>

theorem heap_size_invariant:
  assumes "0 < N"
  shows "heap_inv N (irds (gen_setup N d_ird g))
       \<and> (\<forall>len st. gen_run N len p_irm d_ird d_irm d_is_irm g = Inr st \<longrightarrow> heap_inv N (irds st))
       \<and> (\<forall>len st. td_run N len p_irm d_ird d_irm d_is_irm g = Inr st \<longrightarrow> heap_inv N (irds st))
       \<and> (\<forall>st. kd_setup F N ds pop g = Inr st \<longrightarrow> heap_inv N (heap st))
       \<and> (\<forall>len st. kd_run F N len ds pop g = Inr st \<longrightarrow> heap_inv N (heap st))"
proof (intro conjI allI impI)
  show "heap_inv N (irds (gen_setup N d_ird g))" by (rule gen_setup_inv)
next
  fix len st assume "gen_run N len p_irm d_ird d_irm d_is_irm g = Inr st"
  then show "heap_inv N (irds st)"
    unfolding gen_run_def by (rule gen_loop_inv) (rule gen_setup_inv)
next
  fix len st assume "td_run N len p_irm d_ird d_irm d_is_irm g = Inr st"
  then show "heap_inv N (irds st)"
    unfolding td_run_eq gen_run_def by (rule gen_loop_inv) (rule gen_setup_inv)
next
  fix st assume "kd_setup F N ds pop g = Inr st"
  then show "heap_inv N (heap st)" by (rule kd_setup_inv)
next
  fix len st assume "kd_run F N len ds pop g = Inr st"
  then obtain st0 where "kd_setup F N ds pop g = Inr st0" "kd_loop F ds pop len 0 st0 = Inr st"
    by (auto simp: kd_run_def split: sum.splits if_splits)
  then show "heap_inv N (heap st)"
    by (intro kd_loop_inv [of F ds pop len 0 st0 st N] kd_setup_inv)
qed

theorem heap_size_invariant_witness:
  "0 < (3::int)
   \<and> gen_run 3 4 (1/2) raw_dist raw_dist raw_unit [2, 0, 1, 7, 1, 3, 2, 9, 0, 0, 1]
     = Inr \<lparr>irds = [\<lparr>ird = 1, addr = 1\<rparr>, \<lparr>ird = 2, addr = 0\<rparr>, \<lparr>ird = 1, addr = 2\<rparr>],
            trace = [1, 2, 2, 1], rng = []\<rparr>
   \<and> heap_inv 3 [\<lparr>ird = 1, addr = 1\<rparr>, \<lparr>ird = 2, addr = 0\<rparr>, \<lparr>ird = 1, addr = 2\<rparr>]
   \<and> td_run 3 4 (1/2) raw_dist raw_dist raw_unit [2, 0, 1, 7, 1, 3, 2, 9, 0, 0, 1]
     = Inr \<lparr>irds = [\<lparr>ird = 1, addr = 1\<rparr>, \<lparr>ird = 2, addr = 0\<rparr>, \<lparr>ird = 1, addr = 2\<rparr>],
            trace = [1, 2, 2, 1], rng = []\<rparr>
   \<and> kd_setup exact_ops 3 [raw_dist, raw_dist] [1/2, 2] [2, 0, 1, 7, 1, 3, 2, 9, 0, 0, 1]
     = Inr \<lparr>heap = [\<lparr>ird = 0, addr = 1, group = 1\<rparr>, \<lparr>ird = 4, addr = 0, group = 0\<rparr>,
                    \<lparr>ird = 1, addr = 2, group = 1\<rparr>],
            ktrace = [], krng = [7, 1, 3, 2, 9, 0, 0, 1]\<rparr>
   \<and> heap_inv 3 [\<lparr>ird = 0, addr = 1, group = 1\<rparr>, \<lparr>ird = 4, addr = 0, group = 0\<rparr>,
                 \<lparr>ird = 1, addr = 2, group = 1\<rparr>]
   \<and> kd_run exact_ops 3 2 [raw_dist, raw_dist] [1/2, 2] [2, 0, 1, 7, 1, 3, 2, 9, 0, 0, 1]
     = Inr \<lparr>heap = [\<lparr>ird = 2, addr = 2, group = 1\<rparr>, \<lparr>ird = 4, addr = 0, group = 0\<rparr>,
                    \<lparr>ird = 4, addr = 1, group = 1\<rparr>],
            ktrace = [1, 2], krng = [3, 2, 9, 0, 0, 1]\<rparr>
   \<and> heap_inv 3 [\<lparr>ird = 2, addr = 2, group = 1\<rparr>, \<lparr>ird = 4, addr = 0, group = 0\<rparr>,
                 \<lparr>ird = 4, addr = 1, group = 1\<rparr>]"
proof -
  have pos: "0 < (3::int)" by simp
  note inv = heap_size_invariant [OF pos, of raw_dist "[2, 0, 1, 7, 1, 3, 2, 9, 0, 0, 1]"
      "1/2" raw_dist raw_unit exact_ops "[raw_dist, raw_dist]" "[1/2, 2]"]
  have r1: "gen_run 3 4 (1/2) raw_dist raw_dist raw_unit [2, 0, 1, 7, 1, 3, 2, 9, 0, 0, 1]
     = Inr \<lparr>irds = [\<lparr>ird = 1, addr = 1\<rparr>, \<lparr>ird = 2, addr = 0\<rparr>, \<lparr>ird = 1, addr = 2\<rparr>],
            trace = [1, 2, 2, 1], rng = []\<rparr>"
    by code_simp
  have r2: "kd_setup exact_ops 3 [raw_dist, raw_dist] [1/2, 2] [2, 0, 1, 7, 1, 3, 2, 9, 0, 0, 1]
     = Inr \<lparr>heap = [\<lparr>ird = 0, addr = 1, group = 1\<rparr>, \<lparr>ird = 4, addr = 0, group = 0\<rparr>,
                    \<lparr>ird = 1, addr = 2, group = 1\<rparr>],
            ktrace = [], krng = [7, 1, 3, 2, 9, 0, 0, 1]\<rparr>"
    by code_simp
  have r3: "kd_run exact_ops 3 2 [raw_dist, raw_dist] [1/2, 2] [2, 0, 1, 7, 1, 3, 2, 9, 0, 0, 1]
     = Inr \<lparr>heap = [\<lparr>ird = 2, addr = 2, group = 1\<rparr>, \<lparr>ird = 4, addr = 0, group = 0\<rparr>,
                    \<lparr>ird = 4, addr = 1, group = 1\<rparr>],
            ktrace = [1, 2], krng = [3, 2, 9, 0, 0, 1]\<rparr>"
    by code_simp
  from inv r1 have i1: "heap_inv 3 [\<lparr>ird = 1, addr = 1\<rparr>, \<lparr>ird = 2, addr = 0\<rparr>, \<lparr>ird = 1, addr = 2\<rparr>]"
    by (metis gen_state.select_convs(1))
  from inv r2 have i2: "heap_inv 3 [\<lparr>ird = 0, addr = 1, group = 1\<rparr>, \<lparr>ird = 4, addr = 0, group = 0\<rparr>,
                 \<lparr>ird = 1, addr = 2, group = 1\<rparr>]"
    by (metis kd_state.select_convs(1))
  from inv r3 have i3: "heap_inv 3 [\<lparr>ird = 2, addr = 2, group = 1\<rparr>, \<lparr>ird = 4, addr = 0, group = 0\<rparr>,
                 \<lparr>ird = 4, addr = 1, group = 1\<rparr>]"
    by (metis kd_state.select_convs(1))
  show ?thesis using pos r1 r2 r3 i1 i2 i3 by (simp add: td_run_eq)
qed

subsection \<open>C7: a trace of length zero\<close>

text \<open>
  C7: with \<open>addresses = 4\<close> and \<open>length = 0\<close> generation returns the empty trace and no
  error, whatever the samplers, the blend probability and the random state are: the
  main loop runs zero times, so the run ends in the state the set-up left, and both
  \<^verbatim>\<open>gen_addresses\<close> and \<^verbatim>\<open>td_gen\<close> return the empty trace.
\<close>

theorem gen_addresses_length_zero:
  "gen_run 4 0 p_irm d_ird d_irm d_is_irm g = Inr (gen_setup 4 d_ird g)
   \<and> gen_addresses 4 0 p_irm d_ird d_irm d_is_irm g = Inr []
   \<and> td_gen 4 0 p_irm d_ird d_irm d_is_irm g = Inr []"
proof -
  have run: "gen_run 4 0 p_irm d_ird d_irm d_is_irm g = Inr (gen_setup 4 d_ird g)"
    by (simp add: gen_run_def gen_loop_stop)
  have "trace (gen_setup 4 d_ird g) = []"
    by (simp add: gen_setup_def case_prod_beta)
  with run show ?thesis
    by (simp add: gen_addresses_def td_gen_def td_run_eq)
qed

subsection \<open>C3: with blend probability one the heap is never touched\<close>

lemma gen_step_irm:
  assumes "fst (d_is_irm (rng st)) < p_irm"
  shows "gen_step addrs p_irm d_ird d_irm d_is_irm st =
           (if \<not> fst (d_irm (snd (d_is_irm (rng st)))) < addrs then Inl AssertionFailed
            else Inr (st\<lparr>trace := trace st @ [fst (d_irm (snd (d_is_irm (rng st))))],
                        rng := snd (d_irm (snd (d_is_irm (rng st))))\<rparr>))"
  using assms by (simp add: gen_step_def case_prod_beta)

lemma gen_loop_unfold:
  "i < len \<Longrightarrow> gen_step addrs p_irm d_ird d_irm d_is_irm st = Inr st1 \<Longrightarrow>
   gen_loop addrs len p_irm d_ird d_irm d_is_irm i st
     = gen_loop addrs len p_irm d_ird d_irm d_is_irm (i + 1) st1"
  by (subst gen_loop.simps) simp

lemma gen_loop_fail:
  "i < len \<Longrightarrow> gen_step addrs p_irm d_ird d_irm d_is_irm st = Inl e \<Longrightarrow>
   gen_loop addrs len p_irm d_ird d_irm d_is_irm i st = Inl e"
  by (subst gen_loop.simps) simp

lemma irm_draws_unfold:
  "i < len \<Longrightarrow> irm_draws d_irm d_is_irm (nat (len - i)) g =
     fst (d_irm (snd (d_is_irm g)))
       # irm_draws d_irm d_is_irm (nat (len - (i + 1))) (snd (d_irm (snd (d_is_irm g))))"
proof -
  assume "i < len"
  then have "nat (len - i) = Suc (nat (len - (i + 1)))" by simp
  then show ?thesis by (simp only: irm_draws.simps)
qed

lemma gen_loop_pure_irm_ok:
  assumes "\<forall>g. fst (d_is_irm g) < 1"
    and "gen_loop addrs len 1 d_ird d_irm d_is_irm i st = Inr st'"
  shows "irds st' = irds st \<and>
         trace st' = trace st @ irm_draws d_irm d_is_irm (nat (len - i)) (rng st)"
  using assms
proof (induction addrs len "1::real" d_ird d_irm d_is_irm i st rule: gen_loop.induct)
  case (1 addrs len d_ird d_irm d_is_irm i st)
  show ?case
  proof (cases "i < len")
    case False
    with "1.prems"(2) show ?thesis by (simp add: gen_loop_stop)
  next
    case True
    from "1.prems"(1) have lt: "fst (d_is_irm (rng st)) < 1" by simp
    note step = gen_step_irm [of d_is_irm st 1 addrs d_ird d_irm, OF lt]
    let ?a = "fst (d_irm (snd (d_is_irm (rng st))))"
    let ?g = "snd (d_irm (snd (d_is_irm (rng st))))"
    let ?st1 = "st\<lparr>trace := trace st @ [?a], rng := ?g\<rparr>"
    show ?thesis
    proof (cases "?a < addrs")
      case False
      then have "gen_step addrs 1 d_ird d_irm d_is_irm st = Inl AssertionFailed"
        by (simp add: step)
      from gen_loop_fail [OF True this] "1.prems"(2) show ?thesis by simp
    next
      case a: True
      then have s: "gen_step addrs 1 d_ird d_irm d_is_irm st = Inr ?st1"
        by (simp add: step)
      from "1.prems"(2) have "gen_loop addrs len 1 d_ird d_irm d_is_irm (i + 1) ?st1 = Inr st'"
        by (simp only: gen_loop_unfold [OF True s])
      from "1.hyps" [OF True s "1.prems"(1) this]
      show ?thesis by (simp add: irm_draws_unfold [OF True])
    qed
  qed
qed

lemma gen_loop_pure_irm_fail:
  assumes "\<forall>g. fst (d_is_irm g) < 1"
    and "gen_loop addrs len 1 d_ird d_irm d_is_irm i st = Inl e"
  shows "e = AssertionFailed \<and>
         (\<exists>a \<in> set (irm_draws d_irm d_is_irm (nat (len - i)) (rng st)). addrs \<le> a)"
  using assms
proof (induction addrs len "1::real" d_ird d_irm d_is_irm i st rule: gen_loop.induct)
  case (1 addrs len d_ird d_irm d_is_irm i st)
  show ?case
  proof (cases "i < len")
    case False
    with "1.prems"(2) show ?thesis by (simp add: gen_loop_stop)
  next
    case True
    from "1.prems"(1) have lt: "fst (d_is_irm (rng st)) < 1" by simp
    note step = gen_step_irm [of d_is_irm st 1 addrs d_ird d_irm, OF lt]
    let ?a = "fst (d_irm (snd (d_is_irm (rng st))))"
    let ?g = "snd (d_irm (snd (d_is_irm (rng st))))"
    let ?st1 = "st\<lparr>trace := trace st @ [?a], rng := ?g\<rparr>"
    show ?thesis
    proof (cases "?a < addrs")
      case False
      then have "gen_step addrs 1 d_ird d_irm d_is_irm st = Inl AssertionFailed"
        by (simp add: step)
      from gen_loop_fail [OF True this] "1.prems"(2) have "e = AssertionFailed" by simp
      with False show ?thesis by (simp add: irm_draws_unfold [OF True])
    next
      case a: True
      then have s: "gen_step addrs 1 d_ird d_irm d_is_irm st = Inr ?st1"
        by (simp add: step)
      from "1.prems"(2) have "gen_loop addrs len 1 d_ird d_irm d_is_irm (i + 1) ?st1 = Inl e"
        by (simp only: gen_loop_unfold [OF True s])
      from "1.hyps" [OF True s "1.prems"(1) this]
      show ?thesis by (simp add: irm_draws_unfold [OF True])
    qed
  qed
qed

lemma raw_unit_lt_1: "fst (raw_unit g) < 1"
proof -
  have "fst (take_raw g) mod 10 < 10" by simp
  then have "real (fst (take_raw g) mod 10) < real 10" by (rule iffD2 [OF of_nat_less_iff])
  then show ?thesis by (simp add: raw_unit_def)
qed

text \<open>
  C3: in blended mode with \<open>p_irm = 1\<close>, every step takes the IRM branch, because the
  blend variable is drawn from the half-open unit interval (the hypothesis is that
  contract of \<^verbatim>\<open>std::uniform_real_distribution<>(0, 1)\<close>). Hence, for every address
  count, length and random state: a run that returns has the heap that set-up built,
  unchanged, and its trace is exactly the sequence of direct IRM draws; a run that does
  not return failed the assertion \<^verbatim>\<open>addr < addrs\<close> on one of these IRM draws, so the heap
  was not popped or pushed there either. \<^verbatim>\<open>td_gen\<close> behaves the same.
\<close>

theorem pure_irm_heap_untouched:
  assumes "\<forall>g. fst (d_is_irm g) < 1"
  shows "(\<forall>st. gen_run N len 1 d_ird d_irm d_is_irm g = Inr st \<longrightarrow>
            irds st = irds (gen_setup N d_ird g) \<and>
            trace st = irm_draws d_irm d_is_irm (nat len) (rng (gen_setup N d_ird g)))
       \<and> (\<forall>e. gen_run N len 1 d_ird d_irm d_is_irm g = Inl e \<longrightarrow>
            e = AssertionFailed \<and>
            (\<exists>a \<in> set (irm_draws d_irm d_is_irm (nat len) (rng (gen_setup N d_ird g))). N \<le> a))
       \<and> td_run N len 1 d_ird d_irm d_is_irm g = gen_run N len 1 d_ird d_irm d_is_irm g"
proof (intro conjI allI impI)
  fix st assume "gen_run N len 1 d_ird d_irm d_is_irm g = Inr st"
  then have "gen_loop N len 1 d_ird d_irm d_is_irm 0 (gen_setup N d_ird g) = Inr st"
    by (simp add: gen_run_def)
  from gen_loop_pure_irm_ok [OF assms this]
  show "irds st = irds (gen_setup N d_ird g)"
    and "trace st = irm_draws d_irm d_is_irm (nat len) (rng (gen_setup N d_ird g))"
    by (simp_all add: gen_setup_def case_prod_beta)
next
  fix e assume "gen_run N len 1 d_ird d_irm d_is_irm g = Inl e"
  then have "gen_loop N len 1 d_ird d_irm d_is_irm 0 (gen_setup N d_ird g) = Inl e"
    by (simp add: gen_run_def)
  from gen_loop_pure_irm_fail [OF assms this]
  show "e = AssertionFailed"
    and "\<exists>a \<in> set (irm_draws d_irm d_is_irm (nat len) (rng (gen_setup N d_ird g))). N \<le> a"
    by simp_all
next
  show "td_run N len 1 d_ird d_irm d_is_irm g = gen_run N len 1 d_ird d_irm d_is_irm g"
    by (simp add: td_run_eq)
qed

theorem pure_irm_heap_untouched_witness:
  "(\<forall>g. fst (raw_unit g) < 1)
   \<and> gen_run 3 4 1 raw_dist raw_dist raw_unit [5, 0, 4, 17, 1, 3, 2, 9, 0, 0, 1]
       = Inr \<lparr>irds = [\<lparr>ird = 0, addr = 1\<rparr>, \<lparr>ird = 5, addr = 0\<rparr>, \<lparr>ird = 4, addr = 2\<rparr>],
              trace = [1, 2, 0, 1], rng = []\<rparr>
   \<and> irds (gen_setup 3 raw_dist [5, 0, 4, 17, 1, 3, 2, 9, 0, 0, 1])
       = [\<lparr>ird = 0, addr = 1\<rparr>, \<lparr>ird = 5, addr = 0\<rparr>, \<lparr>ird = 4, addr = 2\<rparr>]
   \<and> irm_draws raw_dist raw_unit (nat 4) (rng (gen_setup 3 raw_dist [5, 0, 4, 17, 1, 3, 2, 9, 0, 0, 1]))
       = [1, 2, 0, 1]
   \<and> gen_run 3 4 1 raw_dist raw_dist raw_unit [5, 0, 4, 17, 1, 3, 2, 9, 3, 0, 1] = Inl AssertionFailed
   \<and> (\<exists>a \<in> set (irm_draws raw_dist raw_unit (nat 4)
                    (rng (gen_setup 3 raw_dist [5, 0, 4, 17, 1, 3, 2, 9, 3, 0, 1]))). 3 \<le> a)"
proof -
  have u: "\<forall>g. fst (raw_unit g) < 1" by (simp add: raw_unit_lt_1)
  note ok = pure_irm_heap_untouched [OF u, of 3 4 raw_dist raw_dist "[5, 0, 4, 17, 1, 3, 2, 9, 0, 0, 1]"]
  note bad = pure_irm_heap_untouched [OF u, of 3 4 raw_dist raw_dist "[5, 0, 4, 17, 1, 3, 2, 9, 3, 0, 1]"]
  have r1: "gen_run 3 4 1 raw_dist raw_dist raw_unit [5, 0, 4, 17, 1, 3, 2, 9, 0, 0, 1]
       = Inr \<lparr>irds = [\<lparr>ird = 0, addr = 1\<rparr>, \<lparr>ird = 5, addr = 0\<rparr>, \<lparr>ird = 4, addr = 2\<rparr>],
              trace = [1, 2, 0, 1], rng = []\<rparr>"
    by code_simp
  have r2: "gen_run 3 4 1 raw_dist raw_dist raw_unit [5, 0, 4, 17, 1, 3, 2, 9, 3, 0, 1] = Inl AssertionFailed"
    by code_simp
  from ok r1 have
    "irds \<lparr>irds = [\<lparr>ird = 0, addr = 1\<rparr>, \<lparr>ird = 5, addr = 0\<rparr>, \<lparr>ird = 4, addr = 2\<rparr>],
              trace = [1, 2, 0, 1], rng = ([]::nat list)\<rparr>
       = irds (gen_setup 3 raw_dist [5, 0, 4, 17, 1, 3, 2, 9, 0, 0, 1])
     \<and> trace \<lparr>irds = [\<lparr>ird = 0, addr = 1\<rparr>, \<lparr>ird = 5, addr = 0\<rparr>, \<lparr>ird = 4, addr = 2\<rparr>],
              trace = [1, 2, 0, 1], rng = ([]::nat list)\<rparr>
       = irm_draws raw_dist raw_unit (nat 4) (rng (gen_setup 3 raw_dist [5, 0, 4, 17, 1, 3, 2, 9, 0, 0, 1]))"
    by blast
  then have a: "irds (gen_setup 3 raw_dist [5, 0, 4, 17, 1, 3, 2, 9, 0, 0, 1])
       = [\<lparr>ird = 0, addr = 1\<rparr>, \<lparr>ird = 5, addr = 0\<rparr>, \<lparr>ird = 4, addr = 2\<rparr>]"
    and b: "irm_draws raw_dist raw_unit (nat 4) (rng (gen_setup 3 raw_dist [5, 0, 4, 17, 1, 3, 2, 9, 0, 0, 1]))
       = [1, 2, 0, 1]"
    by simp_all
  from bad r2 have c: "\<exists>a \<in> set (irm_draws raw_dist raw_unit (nat 4)
                    (rng (gen_setup 3 raw_dist [5, 0, 4, 17, 1, 3, 2, 9, 3, 0, 1]))). 3 \<le> a"
    by blast
  from u r1 r2 a b c show ?thesis by blast
qed

subsection \<open>C4: the range check of the IRM branch\<close>

text \<open>
  C4: the IRM branch asserts \<^verbatim>\<open>addr < addrs\<close> only. An address that is too large fails
  the assertion, but a negative address passes it and is emitted into the trace: with
  four addresses, one step, \<open>p_irm = 1\<close> and an IRM sampler that returns \<open>-1\<close>, both
  copies of the generator return the trace \<open>[-1]\<close>. The assertion on the IRD sample in
  the same loop checks both bounds.
\<close>

theorem irm_negative_address_emitted:
  "gen_addresses 4 1 1 raw_dist (const_dist (- 1)) raw_unit [0, 0, 0, 0, 0] = Inr [- 1]
   \<and> td_gen 4 1 1 raw_dist (const_dist (- 1)) raw_unit [0, 0, 0, 0, 0] = Inr [- 1]
   \<and> gen_addresses 4 1 1 raw_dist (const_dist 4) raw_unit [0, 0, 0, 0, 0] = Inl AssertionFailed"
  by code_simp

subsection \<open>C5: the scheduling increment of grouped mode\<close>

lemma narrow_id: "- (2 ^ 31) \<le> s \<Longrightarrow> s < 2 ^ 31 \<Longrightarrow> narrow s = s"
  unfolding narrow_def
  by (simp add: sint_sbintrunc' signed_take_bit_int_eq_self)

lemma llround_nearest: "\<bar>real_of_int (llround x) - x\<bar> \<le> 1 / 2"
proof -
  have fl: "real_of_int \<lfloor>y\<rfloor> \<le> y \<and> y < real_of_int \<lfloor>y\<rfloor> + 1" for y :: real
    by linarith
  show ?thesis
  proof (cases "x < 0")
    case True
    have "llround x = - \<lfloor>1 / 2 - x\<rfloor>" using True by (simp add: llround_def)
    with fl [of "1 / 2 - x"] show ?thesis by (simp only: of_int_minus) linarith
  next
    case False
    then have "llround x = \<lfloor>x + 1 / 2\<rfloor>" by (simp add: llround_def)
    with fl [of "x + 1 / 2"] show ?thesis by (simp only:) linarith
  qed
qed

lemma scale_ird_eq:
  "scale_ird F p raw =
     max 0 (f_llround F (if f_eq F p (f_of_i64 F 0) then f_of_i64 F raw
                         else f_div F (f_of_i64 F raw) p))"
  by (simp add: scale_ird_def Let_def max_def)

lemma scale_ird_nonneg: "0 \<le> scale_ird F p raw"
  by (simp add: scale_ird_def Let_def)

lemma kd_draw_Inr:
  assumes "kd_draw F ds pop gr g = Inr (v, g')"
  shows "0 \<le> gr \<and> gr < int (length ds) \<and> gr < int (length pop)
       \<and> v = scale_ird F (pop ! nat gr) (narrow (fst ((ds ! nat gr) g)))
       \<and> g' = snd ((ds ! nat gr) g)"
  using assms by (auto simp: kd_draw_def Let_def case_prod_beta split: if_splits)

lemma kd_draw_ok:
  "0 \<le> gr \<Longrightarrow> gr < int (length ds) \<Longrightarrow> gr < int (length pop) \<Longrightarrow>
   kd_draw F ds pop gr g
     = Inr (scale_ird F (pop ! nat gr) (narrow (fst ((ds ! nat gr) g))), snd ((ds ! nat gr) g))"
  by (simp add: kd_draw_def Let_def case_prod_beta)

lemma kd_init_entries:
  assumes "kd_init F ds pop addrs groups gs a s = Inr s'"
    and "\<forall>e \<in> set (fst s). P e"
    and "\<And>a gr g v g'. group_of groups gs a = Inr gr \<Longrightarrow> kd_draw F ds pop gr g = Inr (v, g')
            \<Longrightarrow> P \<lparr>ird = v, addr = a, group = gr\<rparr>"
  shows "\<forall>e \<in> set (fst s'). P e"
  using assms
proof (induction F ds pop addrs groups gs a s rule: kd_init.induct)
  case (1 F ds pop addrs groups gs a h g)
  show ?case
  proof (cases "a < addrs")
    case True
    with "1.prems"(1) obtain gr v g' where
      gr: "group_of groups gs a = Inr gr" and
      dr: "kd_draw F ds pop gr g = Inr (v, g')" and
      rec: "kd_init F ds pop addrs groups gs (a + 1) (h @ [\<lparr>ird = v, addr = a, group = gr\<rparr>], g') = Inr s'"
      by (subst (asm) kd_init.simps) (auto split: sum.splits)
    from "1.prems"(3) [OF gr dr] "1.prems"(2)
    have "\<forall>e \<in> set (fst (h @ [\<lparr>ird = v, addr = a, group = gr\<rparr>], g')). P e" by simp
    from "1.IH" [OF True gr dr _ rec this "1.prems"(3)] show ?thesis by simp
  next
    case False
    with "1.prems" show ?thesis by (subst (asm) kd_init.simps) auto
  qed
qed

lemma kd_step_Inr:
  assumes "kd_step F ds pop st = Inr st'"
  shows "\<exists>entry rest. kd_heappop (heap st) = Inr (entry, rest)
        \<and> heap st' = kd_heappush rest
             (ird entry + scale_ird F (pop ! nat (group entry))
                            (narrow (fst ((ds ! nat (group entry)) (krng st)))))
             (addr entry) (group entry)
        \<and> ktrace st' = ktrace st @ [addr entry]
        \<and> krng st' = snd ((ds ! nat (group entry)) (krng st))"
proof -
  from assms obtain entry rest v g' where
    pop: "kd_heappop (heap st) = Inr (entry, rest)" and
    dr: "kd_draw F ds pop (group entry) (krng st) = Inr (v, g')" and
    st': "st' = \<lparr>heap = kd_heappush rest (ird entry + v) (addr entry) (group entry),
                 ktrace = ktrace st @ [addr entry], krng = g'\<rparr>"
    by (auto simp: kd_step_def split: sum.splits)
  from kd_draw_Inr [OF dr] pop st' show ?thesis by simp
qed

text \<open>
  The conversion to \<^verbatim>\<open>int\<close> is the identity on 32-bit values only.
\<close>

lemma narrow_wraps: "narrow 4294967299 = 3"
  by (simp add: narrow_def)

text \<open>
  C5: in grouped mode every scheduling increment comes from the same three lines. The
  sample of the group's IRD sampler is stored in a C++ \<^verbatim>\<open>int\<close> (\<open>narrow\<close>: the sample
  itself whenever it fits in 32 bits, as the samples of every sampler built by
  \<^verbatim>\<open>parse_ird\<close> do); it is converted to a double and divided by \<open>pop[g]\<close> unless
  \<open>pop[g]\<close> compares equal to zero, rounded to an integer by \<^verbatim>\<open>std::llround\<close> and
  replaced by 0 when negative. The division and the rounding are those of the machine:
  the statement holds for every arithmetic \<open>F\<close>.
  \<^item> After set-up the heap holds one entry for each address, and every entry has the
    group of its address and the scaled value of a draw of that group's sampler as its
    virtual time.
  \<^item> A step pops an entry and pushes an entry with the same address and the same group
    whose virtual time is the old one plus the increment; the other entries stay.
  \<^item> The increment is \<open>max 0 (f_llround F scaled)\<close> and never negative.
\<close>

theorem grouped_increment:
  "(\<forall>st. kd_setup F N ds pop g = Inr st \<longrightarrow>
      heap_inv N (heap st) \<and>
      (\<forall>e \<in> set (heap st).
         group_of (narrow (int (length ds))) (tdiv N (narrow (int (length ds)))) (addr e) = Inr (group e)
         \<and> (\<exists>g0. ird e = scale_ird F (pop ! nat (group e)) (narrow (fst ((ds ! nat (group e)) g0))))))
   \<and> (\<forall>st'. kd_step F ds pop st = Inr st' \<longrightarrow>
      (\<exists>entry rest.
         kd_heappop (heap st) = Inr (entry, rest)
         \<and> heap st' = kd_heappush rest
              (ird entry + scale_ird F (pop ! nat (group entry))
                             (narrow (fst ((ds ! nat (group entry)) (krng st)))))
              (addr entry) (group entry)
         \<and> mset (heap st) = add_mset entry (mset rest)
         \<and> mset (heap st') = add_mset
              \<lparr>ird = ird entry + scale_ird F (pop ! nat (group entry))
                                    (narrow (fst ((ds ! nat (group entry)) (krng st)))),
               addr = addr entry, group = group entry\<rparr> (mset rest)
         \<and> ktrace st' = ktrace st @ [addr entry]))
   \<and> scale_ird F p raw =
         max 0 (f_llround F (if f_eq F p (f_of_i64 F 0) then f_of_i64 F raw
                             else f_div F (f_of_i64 F raw) p))
   \<and> 0 \<le> scale_ird F p raw
   \<and> (- (2 ^ 31) \<le> s \<and> s < 2 ^ 31 \<longrightarrow> narrow s = s)"
proof (intro conjI allI impI)
  fix st assume a: "kd_setup F N ds pop g = Inr st"
  then show "heap_inv N (heap st)" by (rule kd_setup_inv)
next
  fix st assume a: "kd_setup F N ds pop g = Inr st"
  let ?groups = "narrow (int (length ds))"
  let ?P = "\<lambda>e. group_of ?groups (tdiv N ?groups) (addr e) = Inr (group e)
         \<and> (\<exists>g0. ird e = scale_ird F (pop ! nat (group e)) (narrow (fst ((ds ! nat (group e)) g0))))"
  from a obtain h g' where
    ini: "kd_init F ds pop N ?groups (tdiv N ?groups) 0 ([], g) = Inr (h, g')" and
    st: "heap st = make_heap group_tadr_cmp h"
    by (auto simp: kd_setup_def Let_def split: if_splits sum.splits)
  have "\<forall>e \<in> set (fst (h, g')). ?P e"
  proof (rule kd_init_entries [OF ini])
    show "\<forall>e \<in> set (fst ([], g)). ?P e" by simp
  next
    fix a gr g v g'
    assume "group_of ?groups (tdiv N ?groups) a = Inr gr" "kd_draw F ds pop gr g = Inr (v, g')"
    with kd_draw_Inr [of F ds pop gr g v g']
    show "?P \<lparr>ird = v, addr = a, group = gr\<rparr>" by auto
  qed
  moreover have "set (heap st) = set h"
    by (simp only: st set_mset_mset [symmetric] mset_make_heap)
  ultimately show "\<forall>e \<in> set (heap st). ?P e" by simp
next
  fix st' assume "kd_step F ds pop st = Inr st'"
  from kd_step_Inr [OF this] obtain entry rest where
    p: "kd_heappop (heap st) = Inr (entry, rest)" and
    h: "heap st' = kd_heappush rest
             (ird entry + scale_ird F (pop ! nat (group entry))
                            (narrow (fst ((ds ! nat (group entry)) (krng st)))))
             (addr entry) (group entry)" and
    t: "ktrace st' = ktrace st @ [addr entry]"
    by blast
  from p h t kd_heappop_mset [OF p] show "\<exists>entry rest.
         kd_heappop (heap st) = Inr (entry, rest)
         \<and> heap st' = kd_heappush rest
              (ird entry + scale_ird F (pop ! nat (group entry))
                             (narrow (fst ((ds ! nat (group entry)) (krng st)))))
              (addr entry) (group entry)
         \<and> mset (heap st) = add_mset entry (mset rest)
         \<and> mset (heap st') = add_mset
              \<lparr>ird = ird entry + scale_ird F (pop ! nat (group entry))
                                    (narrow (fst ((ds ! nat (group entry)) (krng st)))),
               addr = addr entry, group = group entry\<rparr> (mset rest)
         \<and> ktrace st' = ktrace st @ [addr entry]"
    by (intro exI [of _ entry] exI [of _ rest]) (simp add: kd_heappush_mset)
next
  show "scale_ird F p raw =
         max 0 (f_llround F (if f_eq F p (f_of_i64 F 0) then f_of_i64 F raw
                             else f_div F (f_of_i64 F raw) p))"
    by (rule scale_ird_eq)
next
  show "0 \<le> scale_ird F p raw" by (rule scale_ird_nonneg)
next
  assume "- (2 ^ 31) \<le> s \<and> s < 2 ^ 31"
  then show "narrow s = s" by (simp add: narrow_id)
qed


theorem grouped_increment_witness:
  "kd_setup exact_ops 3 [raw_dist, raw_dist] [1/2, 2] [2, 0, 1, 7, 1, 3, 2, 9, 0, 0, 1]
     = Inr \<lparr>heap = [\<lparr>ird = 0, addr = 1, group = 1\<rparr>, \<lparr>ird = 4, addr = 0, group = 0\<rparr>,
                    \<lparr>ird = 1, addr = 2, group = 1\<rparr>],
            ktrace = [], krng = [7, 1, 3, 2, 9, 0, 0, 1]\<rparr>
   \<and> heap_inv 3 [\<lparr>ird = 0, addr = 1, group = 1\<rparr>, \<lparr>ird = 4, addr = 0, group = 0\<rparr>,
                 \<lparr>ird = 1, addr = 2, group = 1\<rparr>]
   \<and> group_of 2 1 2 = Inr 1
   \<and> (\<exists>g0. scale_ird exact_ops 2 (narrow (fst (raw_dist g0))) = 1)
   \<and> kd_step exact_ops [raw_dist, raw_dist] [1/2, 2]
        \<lparr>heap = [\<lparr>ird = 0, addr = 1, group = 1\<rparr>, \<lparr>ird = 4, addr = 0, group = 0\<rparr>,
                 \<lparr>ird = 1, addr = 2, group = 1\<rparr>],
         ktrace = [], krng = [7, 1, 3, 2, 9, 0, 0, 1]\<rparr>
     = Inr \<lparr>heap = [\<lparr>ird = 1, addr = 2, group = 1\<rparr>, \<lparr>ird = 4, addr = 0, group = 0\<rparr>,
                    \<lparr>ird = 4, addr = 1, group = 1\<rparr>],
            ktrace = [1], krng = [1, 3, 2, 9, 0, 0, 1]\<rparr>
   \<and> mset [\<lparr>ird = 1, addr = 2, group = 1\<rparr>, \<lparr>ird = 4, addr = 0, group = 0\<rparr>,
            \<lparr>ird = 4, addr = 1, group = 1\<rparr>]
     = add_mset \<lparr>ird = 0 + scale_ird exact_ops 2 (narrow 7), addr = 1, group = 1\<rparr>
         (mset [\<lparr>ird = 1, addr = 2, group = 1\<rparr>, \<lparr>ird = 4, addr = 0, group = 0\<rparr>])
   \<and> scale_ird exact_ops 2 7
       = max 0 (f_llround exact_ops (f_div exact_ops (f_of_i64 exact_ops 7) 2))
   \<and> scale_ird exact_ops 2 7 = 4
   \<and> narrow 7 = 7"
proof -
  let ?ds = "[raw_dist, raw_dist]"
  let ?pop = "[1/2, 2] :: real list"
  let ?g = "[2, 0, 1, 7, 1, 3, 2, 9, 0, 0, 1] :: nat list"
  let ?st0 = "\<lparr>heap = [\<lparr>ird = 0, addr = 1, group = 1\<rparr>, \<lparr>ird = 4, addr = 0, group = 0\<rparr>,
                        \<lparr>ird = 1, addr = 2, group = 1\<rparr>],
                ktrace = [], krng = [7, 1, 3, 2, 9, 0, 0, 1] :: nat list\<rparr>"
  let ?st1 = "\<lparr>heap = [\<lparr>ird = 1, addr = 2, group = 1\<rparr>, \<lparr>ird = 4, addr = 0, group = 0\<rparr>,
                    \<lparr>ird = 4, addr = 1, group = 1\<rparr>],
            ktrace = [1], krng = [1, 3, 2, 9, 0, 0, 1] :: nat list\<rparr>"
  note t = grouped_increment [where F = exact_ops and N = 3 and ds = ?ds and pop = ?pop
      and g = ?g and st = ?st0 and p = 2 and raw = 7 and s = 7]
  have r0: "kd_setup exact_ops 3 ?ds ?pop ?g = Inr ?st0" by code_simp
  have r1: "kd_step exact_ops ?ds ?pop ?st0 = Inr ?st1" by code_simp
  have r2: "kd_heappop (heap ?st0) = Inr (\<lparr>ird = 0, addr = 1, group = 1\<rparr>,
      [\<lparr>ird = 1, addr = 2, group = 1\<rparr>, \<lparr>ird = 4, addr = 0, group = 0\<rparr>])"
    by code_simp
  have n: "narrow 2 = 2" "tdiv 3 2 = 1" "narrow 7 = 7" by code_simp+
  from t r0 have hi: "heap_inv 3 (heap ?st0)" by blast
  from t r0 have "\<forall>e \<in> set (heap ?st0).
         group_of (narrow (int (length ?ds))) (tdiv 3 (narrow (int (length ?ds)))) (addr e) = Inr (group e)
         \<and> (\<exists>g0. ird e = scale_ird exact_ops (?pop ! nat (group e)) (narrow (fst ((?ds ! nat (group e)) g0))))"
    by blast
  then have "group_of (narrow (int (length ?ds))) (tdiv 3 (narrow (int (length ?ds)))) (addr \<lparr>ird = 1, addr = 2, group = 1\<rparr>)
               = Inr (group \<lparr>ird = 1, addr = 2, group = 1\<rparr>)
         \<and> (\<exists>g0. ird \<lparr>ird = 1, addr = 2, group = 1\<rparr>
               = scale_ird exact_ops (?pop ! nat (group \<lparr>ird = 1, addr = 2, group = 1\<rparr>))
                   (narrow (fst ((?ds ! nat (group \<lparr>ird = 1, addr = 2, group = 1\<rparr>)) g0))))"
    by simp
  then have a: "group_of 2 1 2 = Inr 1" and b: "\<exists>g0. scale_ird exact_ops 2 (narrow (fst (raw_dist g0))) = 1"
    by (simp_all add: n)
  from t r1 obtain entry rest where
    "kd_heappop (heap ?st0) = Inr (entry, rest)" and
    m: "mset (heap ?st1) = add_mset
              \<lparr>ird = ird entry + scale_ird exact_ops (?pop ! nat (group entry))
                                    (narrow (fst ((?ds ! nat (group entry)) (krng ?st0)))),
               addr = addr entry, group = group entry\<rparr> (mset rest)"
    by blast
  with r2 have "entry = \<lparr>ird = 0, addr = 1, group = 1\<rparr>"
    "rest = [\<lparr>ird = 1, addr = 2, group = 1\<rparr>, \<lparr>ird = 4, addr = 0, group = 0\<rparr>]"
    by simp_all
  with m have c: "mset [\<lparr>ird = 1, addr = 2, group = 1\<rparr>, \<lparr>ird = 4, addr = 0, group = 0\<rparr>,
            \<lparr>ird = 4, addr = 1, group = 1\<rparr>]
     = add_mset \<lparr>ird = 0 + scale_ird exact_ops 2 (narrow 7), addr = 1, group = 1\<rparr>
         (mset [\<lparr>ird = 1, addr = 2, group = 1\<rparr>, \<lparr>ird = 4, addr = 0, group = 0\<rparr>])"
    by (simp add: raw_dist_def take_raw_def)
  have z: "\<not> f_eq exact_ops 2 (f_of_i64 exact_ops 0)" by (simp add: exact_ops_def)
  from t z have d: "scale_ird exact_ops 2 7
       = max 0 (f_llround exact_ops (f_div exact_ops (f_of_i64 exact_ops 7) 2))"
    by simp
  have e: "scale_ird exact_ops 2 7 = 4" by code_simp
  from hi have hi': "heap_inv 3 [\<lparr>ird = 0, addr = 1, group = 1\<rparr>, \<lparr>ird = 4, addr = 0, group = 0\<rparr>,
                 \<lparr>ird = 1, addr = 2, group = 1\<rparr>]"
    by simp
  from r0 r1 hi' a b c d e n(3) show ?thesis by blast
qed

subsection \<open>C9: grouped generation needs no more groups than addresses\<close>

lemma tdiv_nonneg: "0 \<le> a \<Longrightarrow> 0 < b \<Longrightarrow> tdiv a b = a div b"
  by (cases "a = 0") (simp_all add: tdiv_def)

lemma group_of_in_range:
  assumes "0 < groups" "groups \<le> addrs" "addrs \<le> 2 ^ 31" "0 \<le> a" "a < addrs"
  shows "group_of groups (tdiv addrs groups) a = Inr (min (a div (addrs div groups)) (groups - 1))
       \<and> 0 \<le> min (a div (addrs div groups)) (groups - 1)
       \<and> min (a div (addrs div groups)) (groups - 1) < groups"
proof -
  from assms have gs: "tdiv addrs groups = addrs div groups" by (simp add: tdiv_nonneg)
  from assms have pos: "0 < addrs div groups"
    by (simp add: pos_imp_zdiv_pos_iff)
  with assms have q: "tdiv a (addrs div groups) = a div (addrs div groups)"
    by (simp add: tdiv_nonneg)
  from pos assms have q0: "0 \<le> a div (addrs div groups)"
    by (simp add: pos_imp_zdiv_nonneg_iff)
  have "a div (addrs div groups) \<le> a div 1"
    using pos assms(4) by (intro zdiv_mono2) simp_all
  then have "a div (addrs div groups) \<le> a" by simp
  with assms have "a div (addrs div groups) < 2 ^ 31" by linarith
  with q0 have "narrow (a div (addrs div groups)) = a div (addrs div groups)"
    by (intro narrow_id) linarith+
  with pos q0 assms(1) show ?thesis
    by (auto simp: group_of_def gs q Let_def min_def)
qed


lemma kd_init_total:
  assumes "\<forall>b. a \<le> b \<and> b < addrs \<longrightarrow>
             (\<exists>gr. group_of groups gs b = Inr gr \<and> 0 \<le> gr \<and> gr < int (length ds) \<and> gr < int (length pop))"
  shows "\<exists>s'. kd_init F ds pop addrs groups gs a s = Inr s'"
  using assms
proof (induction F ds pop addrs groups gs a s rule: kd_init.induct)
  case (1 F ds pop addrs groups gs a h g)
  show ?case
  proof (cases "a < addrs")
    case False
    then show ?thesis by (subst kd_init.simps) simp
  next
    case True
    with "1.prems" obtain gr where
      gr: "group_of groups gs a = Inr gr" and b: "0 \<le> gr" "gr < int (length ds)" "gr < int (length pop)"
      by (metis order_refl)
    let ?v = "scale_ird F (pop ! nat gr) (narrow (fst ((ds ! nat gr) g)))"
    let ?g = "snd ((ds ! nat gr) g)"
    have dr: "kd_draw F ds pop gr g = Inr (?v, ?g)" using b by (rule kd_draw_ok)
    have "\<forall>b. a + 1 \<le> b \<and> b < addrs \<longrightarrow>
             (\<exists>gr. group_of groups gs b = Inr gr \<and> 0 \<le> gr \<and> gr < int (length ds) \<and> gr < int (length pop))"
      using "1.prems" by simp
    from "1.IH" [OF True gr dr _ this]
    obtain s' where "kd_init F ds pop addrs groups gs (a + 1)
        (h @ [\<lparr>ird = ?v, addr = a, group = gr\<rparr>], ?g) = Inr s'"
      by auto
    with True gr dr show ?thesis by (subst kd_init.simps) simp
  qed
qed

text \<open>
  The group index is stored in a C++ \<^verbatim>\<open>int\<close>: beyond \<open>2^31\<close> addresses the quotient
  need not fit, and then the index is negative.
\<close>

lemma group_of_beyond_int: "group_of 2147483647 (tdiv 2147483649 2147483647) 2147483648 = Inr (- 2147483648)"
  by (simp add: group_of_def tdiv_def narrow_def)

lemma kd_setup_no_address:
  assumes "ds \<noteq> []" and "int (length ds) < 2 ^ 31"
  shows "kd_setup F 0 ds pop g = Inr \<lparr>heap = [], ktrace = [], krng = g\<rparr>"
proof -
  from assms have "narrow (int (length ds)) = int (length ds)"
    by (intro narrow_id) linarith+
  moreover from assms(1) have "int (length ds) \<noteq> 0" by simp
  moreover have "kd_init F ds pop 0 groups gs 0 ([], g) = Inr ([], g)" for groups gs
    by (subst kd_init.simps) simp
  ultimately show ?thesis
    by (simp add: kd_setup_def Let_def make_heap_def)
qed

lemma heap_inv_addr_range:
  assumes "heap_inv N h" and "e \<in> set h"
  shows "0 \<le> addr e \<and> addr e < N"
proof -
  from assms(2) have "addr e \<in># mset (map addr h)" by simp
  with assms(1) have "addr e \<in># mset [0..N - 1]" by (simp add: heap_inv_def)
  then show ?thesis by simp
qed

text \<open>
  C9, as the code has it. The group of address \<open>a\<close> is \<open>a / (addrs / groups)\<close>, cut off at
  \<open>groups - 1\<close>.
  \<^item> With no group at all, \<open>addrs / groups\<close> divides by zero.
  \<^item> With at least one address and more groups than addresses the group size
    \<open>addrs / groups\<close> is zero, and the group assignment of the first address divides by
    zero: set-up and generation end in \<open>DivisionByZero\<close>.
  \<^item> With no address there is no group assignment and nothing is divided by the group
    size: set-up returns the empty heap, and generation of length zero the empty trace.
  \<^item> With \<open>0 < groups \<le> addrs\<close> every address \<open>0 \<le> a < addrs\<close> gets the group
    \<open>min (a div (addrs div groups)) (groups - 1)\<close>, which lies in \<open>[0, groups)\<close>; when there
    is a popularity weight for each group, set-up returns a heap with one entry for each
    address, and the entry of an address carries that group.
  The quantities are taken in the range of the C++ \<^verbatim>\<open>int\<close> that holds the group count
  and the group index: fewer than \<open>2^31\<close> groups, at most \<open>2^31\<close> addresses.
\<close>

theorem grouped_needs_groups_le_addresses:
  "kd_setup F addrs [] pop g = Inl DivisionByZero
   \<and> (0 < addrs \<and> addrs < int (length ds) \<and> int (length ds) < 2 ^ 31 \<longrightarrow>
        tdiv addrs (int (length ds)) = 0
        \<and> group_of (int (length ds)) (tdiv addrs (int (length ds))) 0 = Inl DivisionByZero
        \<and> kd_setup F addrs ds pop g = Inl DivisionByZero
        \<and> kd_gen F addrs len ds pop g = Inl DivisionByZero)
   \<and> (ds \<noteq> [] \<and> int (length ds) < 2 ^ 31 \<longrightarrow>
        kd_setup F 0 ds pop g = Inr \<lparr>heap = [], ktrace = [], krng = g\<rparr>
        \<and> kd_gen F 0 0 ds pop g = Inr [])
   \<and> (0 < groups \<and> groups \<le> addrs \<and> addrs \<le> 2 ^ 31 \<and> 0 \<le> a \<and> a < addrs \<longrightarrow>
        group_of groups (tdiv addrs groups) a = Inr (min (a div (addrs div groups)) (groups - 1))
        \<and> 0 \<le> min (a div (addrs div groups)) (groups - 1)
        \<and> min (a div (addrs div groups)) (groups - 1) < groups)
   \<and> (0 < int (length ds) \<and> int (length ds) \<le> addrs \<and> addrs \<le> 2 ^ 31
        \<and> int (length ds) < 2 ^ 31 \<and> length ds \<le> length pop \<longrightarrow>
        (\<exists>st. kd_setup F addrs ds pop g = Inr st
           \<and> heap_inv addrs (heap st)
           \<and> (\<forall>e \<in> set (heap st).
                 group e = min (addr e div (addrs div int (length ds))) (int (length ds) - 1)
                 \<and> 0 \<le> group e \<and> group e < int (length ds))))"
proof (intro conjI impI)
  show "kd_setup F addrs [] pop g = Inl DivisionByZero"
    by (simp add: kd_setup_def narrow_def)
next
  assume a: "0 < addrs \<and> addrs < int (length ds) \<and> int (length ds) < 2 ^ 31"
  then have n: "narrow (int (length ds)) = int (length ds)"
    by (intro narrow_id) linarith+
  from a have "tdiv addrs (int (length ds)) = addrs div int (length ds)"
    by (intro tdiv_nonneg) linarith+
  with a show z: "tdiv addrs (int (length ds)) = 0" by (simp add: div_pos_pos_trivial)
  show "group_of (int (length ds)) (tdiv addrs (int (length ds))) 0 = Inl DivisionByZero"
    by (simp add: z group_of_def)
  have "kd_init F ds pop addrs (int (length ds)) 0 0 ([], g) = Inl DivisionByZero"
    using a by (subst kd_init.simps) (simp add: group_of_def)
  with a z show s: "kd_setup F addrs ds pop g = Inl DivisionByZero"
    by (simp add: kd_setup_def n Let_def)
  then show "kd_gen F addrs len ds pop g = Inl DivisionByZero"
    by (simp add: kd_gen_def kd_run_def)
next
  assume a: "ds \<noteq> [] \<and> int (length ds) < 2 ^ 31"
  then show s: "kd_setup F 0 ds pop g = Inr \<lparr>heap = [], ktrace = [], krng = g\<rparr>"
    by (intro kd_setup_no_address) simp_all
  then show "kd_gen F 0 0 ds pop g = Inr []"
    by (simp add: kd_gen_def kd_run_def kd_loop_stop)
next
  assume a: "0 < groups \<and> groups \<le> addrs \<and> addrs \<le> 2 ^ 31 \<and> 0 \<le> a \<and> a < addrs"
  then have "group_of groups (tdiv addrs groups) a = Inr (min (a div (addrs div groups)) (groups - 1))
       \<and> 0 \<le> min (a div (addrs div groups)) (groups - 1)
       \<and> min (a div (addrs div groups)) (groups - 1) < groups"
    by (intro group_of_in_range) simp_all
  then show "group_of groups (tdiv addrs groups) a = Inr (min (a div (addrs div groups)) (groups - 1))"
    and "0 \<le> min (a div (addrs div groups)) (groups - 1)"
    and "min (a div (addrs div groups)) (groups - 1) < groups"
    by simp_all
next
  assume a: "0 < int (length ds) \<and> int (length ds) \<le> addrs \<and> addrs \<le> 2 ^ 31
        \<and> int (length ds) < 2 ^ 31 \<and> length ds \<le> length pop"
  let ?groups = "int (length ds)"
  let ?gs = "tdiv addrs ?groups"
  from a have n: "narrow ?groups = ?groups"
    by (intro narrow_id) linarith+
  have rng: "group_of ?groups ?gs b = Inr (min (b div (addrs div ?groups)) (?groups - 1))
       \<and> 0 \<le> min (b div (addrs div ?groups)) (?groups - 1)
       \<and> min (b div (addrs div ?groups)) (?groups - 1) < ?groups"
    if "0 \<le> b \<and> b < addrs" for b
    using a that by (intro group_of_in_range) simp_all
  have "\<forall>b. 0 \<le> b \<and> b < addrs \<longrightarrow>
          (\<exists>gr. group_of ?groups ?gs b = Inr gr
                \<and> 0 \<le> gr \<and> gr < int (length ds) \<and> gr < int (length pop))"
  proof (intro allI impI)
    fix b assume b: "0 \<le> b \<and> b < addrs"
    from rng [OF b] a show "\<exists>gr. group_of ?groups ?gs b = Inr gr
                \<and> 0 \<le> gr \<and> gr < int (length ds) \<and> gr < int (length pop)"
      by auto
  qed
  from kd_init_total [OF this, of F "([], g)"]
  obtain h g' where ini: "kd_init F ds pop addrs ?groups ?gs 0 ([], g) = Inr (h, g')"
    by (metis surj_pair)
  let ?st = "\<lparr>heap = make_heap group_tadr_cmp h, ktrace = [], krng = g'\<rparr>"
  from a ini have st: "kd_setup F addrs ds pop g = Inr ?st"
    by (simp add: kd_setup_def n Let_def)
  then have inv: "heap_inv addrs (heap ?st)" by (rule kd_setup_inv)
  have "\<forall>e \<in> set (fst (h, g')). group_of ?groups ?gs (addr e) = Inr (group e)"
  proof (rule kd_init_entries [OF ini])
    show "\<forall>e \<in> set (fst ([], g)). group_of ?groups ?gs (addr e) = Inr (group e)" by simp
  next
    fix a gr g v g'
    assume "group_of ?groups ?gs a = Inr gr"
    then show "group_of ?groups ?gs (addr \<lparr>ird = v, addr = a, group = gr\<rparr>)
        = Inr (group \<lparr>ird = v, addr = a, group = gr\<rparr>)"
      by simp
  qed
  moreover have "set (heap ?st) = set h"
    by (simp only: kd_state.select_convs set_mset_mset [symmetric] mset_make_heap)
  ultimately have gr: "\<forall>e \<in> set (heap ?st). group_of ?groups ?gs (addr e) = Inr (group e)"
    by simp
  have "\<forall>e \<in> set (heap ?st).
          group e = min (addr e div (addrs div ?groups)) (?groups - 1)
          \<and> 0 \<le> group e \<and> group e < ?groups"
  proof
    fix e assume e: "e \<in> set (heap ?st)"
    from heap_inv_addr_range [OF inv e] have "0 \<le> addr e \<and> addr e < addrs" .
    from rng [OF this] gr e
    show "group e = min (addr e div (addrs div ?groups)) (?groups - 1)
          \<and> 0 \<le> group e \<and> group e < ?groups"
      by auto
  qed
  with st inv show "\<exists>st. kd_setup F addrs ds pop g = Inr st
           \<and> heap_inv addrs (heap st)
           \<and> (\<forall>e \<in> set (heap st).
                 group e = min (addr e div (addrs div int (length ds))) (int (length ds) - 1)
                 \<and> 0 \<le> group e \<and> group e < int (length ds))"
    by blast
qed

theorem grouped_needs_groups_le_addresses_witness:
  "kd_setup exact_ops 2 [] [1] ([] :: nat list) = Inl DivisionByZero
   \<and> tdiv 2 (int (length [raw_dist, raw_dist, raw_dist])) = 0
   \<and> kd_setup exact_ops 2 [raw_dist, raw_dist, raw_dist] [1, 1, 1] [4, 4, 4] = Inl DivisionByZero
   \<and> kd_gen exact_ops 2 5 [raw_dist, raw_dist, raw_dist] [1, 1, 1] [4, 4, 4] = Inl DivisionByZero
   \<and> kd_setup exact_ops 0 [raw_dist] [1] [4, 4, 4] = Inr \<lparr>heap = [], ktrace = [], krng = [4, 4, 4]\<rparr>
   \<and> kd_gen exact_ops 0 0 [raw_dist] [1] [4, 4, 4] = Inr []
   \<and> group_of 2 (tdiv 10 2) 4 = Inr 0
   \<and> group_of 2 (tdiv 10 2) 5 = Inr 1
   \<and> group_of 3 (tdiv 10 3) 9 = Inr 2
   \<and> kd_setup exact_ops 3 [raw_dist, raw_dist] [1 / 2, 2] [2, 0, 1, 7]
       = Inr \<lparr>heap = [\<lparr>ird = 0, addr = 1, group = 1\<rparr>, \<lparr>ird = 4, addr = 0, group = 0\<rparr>,
                      \<lparr>ird = 1, addr = 2, group = 1\<rparr>],
              ktrace = [], krng = [7]\<rparr>
   \<and> heap_inv 3 [\<lparr>ird = 0, addr = 1, group = 1\<rparr>, \<lparr>ird = 4, addr = 0, group = 0\<rparr>,
                 \<lparr>ird = 1, addr = 2, group = 1\<rparr>]
   \<and> group \<lparr>ird = 1, addr = 2, group = 1\<rparr>
       = min (addr \<lparr>ird = 1, addr = 2, group = 1\<rparr> div (3 div int (length [raw_dist, raw_dist])))
           (int (length [raw_dist, raw_dist]) - 1)"
proof -
  let ?st0 = "\<lparr>heap = [\<lparr>ird = 0, addr = 1, group = 1\<rparr>, \<lparr>ird = 4, addr = 0, group = 0\<rparr>,
                        \<lparr>ird = 1, addr = 2, group = 1\<rparr>],
                ktrace = [], krng = [7] :: nat list\<rparr>"
  note t1 = grouped_needs_groups_le_addresses
    [where F = exact_ops and addrs = 2 and ds = "[raw_dist, raw_dist, raw_dist]" and pop = "[1, 1, 1]"
       and g = "[4, 4, 4]" and len = 5 and groups = 1 and a = 0]
  note t2 = grouped_needs_groups_le_addresses
    [where F = exact_ops and addrs = 10 and groups = 2 and a = 4 and ds = "[raw_dist]"
       and pop = "[1]" and g = "[4, 4, 4]" and len = 0]
  note t3 = grouped_needs_groups_le_addresses
    [where F = exact_ops and addrs = 10 and groups = 2 and a = 5 and ds = "[raw_dist]"
       and pop = "[1]" and g = "[4, 4, 4]" and len = 0]
  note t4 = grouped_needs_groups_le_addresses
    [where F = exact_ops and addrs = 10 and groups = 3 and a = 9 and ds = "[raw_dist]"
       and pop = "[1]" and g = "[4, 4, 4]" and len = 0]
  note t5 = grouped_needs_groups_le_addresses
    [where F = exact_ops and addrs = 3 and ds = "[raw_dist, raw_dist]" and pop = "[1 / 2, 2]"
       and g = "[2, 0, 1, 7]" and len = 0 and groups = 1 and a = 0]
  note t6 = grouped_needs_groups_le_addresses
    [where F = exact_ops and addrs = 2 and ds = "[] :: nat list dist list" and pop = "[1]"
       and g = "[]" and len = 0 and groups = 1 and a = 0]
  from t6 have a: "kd_setup exact_ops 2 [] [1] ([] :: nat list) = Inl DivisionByZero" by simp
  from t1 have b: "tdiv 2 (int (length [raw_dist, raw_dist, raw_dist])) = 0"
    "kd_setup exact_ops 2 [raw_dist, raw_dist, raw_dist] [1, 1, 1] [4, 4, 4] = Inl DivisionByZero"
    "kd_gen exact_ops 2 5 [raw_dist, raw_dist, raw_dist] [1, 1, 1] [4, 4, 4] = Inl DivisionByZero"
    by simp_all
  from t2 have z: "kd_setup exact_ops 0 [raw_dist] [1] [4, 4, 4]
        = Inr \<lparr>heap = [], ktrace = [], krng = [4, 4, 4]\<rparr>"
    "kd_gen exact_ops 0 0 [raw_dist] [1] [4, 4, 4] = Inr []"
    by simp_all
  from t2 have c: "group_of 2 (tdiv 10 2) 4 = Inr 0" by simp
  from t3 have d: "group_of 2 (tdiv 10 2) 5 = Inr 1" by simp
  from t4 have e: "group_of 3 (tdiv 10 3) 9 = Inr 2" by simp
  have r: "kd_setup exact_ops 3 [raw_dist, raw_dist] [1 / 2, 2] [2, 0, 1, 7] = Inr ?st0"
    by code_simp
  from t5 obtain st where
    "kd_setup exact_ops 3 [raw_dist, raw_dist] [1 / 2, 2] [2, 0, 1, 7] = Inr st" and
    i: "heap_inv 3 (heap st)" and
    gr: "\<forall>e \<in> set (heap st).
           group e = min (addr e div (3 div int (length [raw_dist, raw_dist])))
                       (int (length [raw_dist, raw_dist]) - 1)
           \<and> 0 \<le> group e \<and> group e < int (length [raw_dist, raw_dist])"
    by auto
  with r have st: "st = ?st0" by simp
  from i st have f: "heap_inv 3 [\<lparr>ird = 0, addr = 1, group = 1\<rparr>, \<lparr>ird = 4, addr = 0, group = 0\<rparr>,
                 \<lparr>ird = 1, addr = 2, group = 1\<rparr>]"
    by simp
  from gr st have h: "group \<lparr>ird = 1, addr = 2, group = 1\<rparr>
       = min (addr \<lparr>ird = 1, addr = 2, group = 1\<rparr> div (3 div int (length [raw_dist, raw_dist])))
           (int (length [raw_dist, raw_dist]) - 1)"
    by simp
  from a b z c d e r f h show ?thesis by blast
qed

text \<open>
  The claim as stated fails without an address: one group is more than zero addresses
  and the group size is zero, but no group is assigned, nothing is divided by the group
  size, and generation of length zero returns the empty trace.
\<close>

theorem grouped_no_address_counterexample:
  "tdiv 0 (int (length [raw_dist])) = 0
   \<and> kd_gen exact_ops 0 0 [raw_dist] [1] [4, 4, 4] = Inr []"
  by code_simp

subsection \<open>C10: the range check on the IRD sample in blended mode\<close>

lemma gen_step_sched:
  assumes "\<not> fst (d_is_irm (rng st)) < p_irm"
  shows "gen_step addrs p_irm d_ird d_irm d_is_irm st =
          (if \<not> (0 \<le> fst (d_ird (snd (d_is_irm (rng st))))
                  \<and> fst (d_ird (snd (d_is_irm (rng st)))) < addrs)
           then Inl AssertionFailed
           else case heappop (irds st) of
                  Inl e \<Rightarrow> Inl e
                | Inr (min_ird, h1) \<Rightarrow>
                    Inr \<lparr>irds = heappush h1 (ird min_ird + fst (d_ird (snd (d_is_irm (rng st)))))
                                  (addr min_ird),
                         trace = trace st @ [addr min_ird],
                         rng = snd (d_ird (snd (d_is_irm (rng st))))\<rparr>)"
  using assms by (simp add: gen_step_def case_prod_beta)

text \<open>
  C10: in blended mode a step that takes the schedule branch draws the IRD sample \<open>s\<close>
  and asserts \<open>0 \<le> s < addrs\<close> before it touches the heap. A sample outside that range
  aborts the step with a failed assertion, in both copies of the generator; a sample
  inside it reschedules the popped entry by \<open>s\<close>. Grouped mode has no such check: a step
  on a non-empty heap whose entries carry valid group indices returns, whatever the
  sampler draws.
\<close>

theorem blended_ird_sample_range:
  assumes "\<not> fst (d_is_irm (rng st)) < p_irm"
    and "d_ird (snd (d_is_irm (rng st))) = (s, g2)"
  shows "(\<not> (0 \<le> s \<and> s < addrs) \<longrightarrow>
            gen_step addrs p_irm d_ird d_irm d_is_irm st = Inl AssertionFailed
          \<and> td_step addrs p_irm d_ird d_irm d_is_irm st = Inl AssertionFailed)
       \<and> (0 \<le> s \<and> s < addrs \<and> irds st \<noteq> [] \<longrightarrow>
            (\<exists>m h1. heappop (irds st) = Inr (m, h1)
               \<and> gen_step addrs p_irm d_ird d_irm d_is_irm st
                   = Inr \<lparr>irds = heappush h1 (ird m + s) (addr m),
                          trace = trace st @ [addr m], rng = g2\<rparr>))
       \<and> (kst_heap \<noteq> [] \<and> (\<forall>e \<in> set kst_heap. 0 \<le> group e \<and> group e < int (length ds)
                                        \<and> group e < int (length pop)) \<longrightarrow>
            (\<exists>st'. kd_step F ds pop \<lparr>heap = kst_heap, ktrace = tr, krng = kg\<rparr> = Inr st'))"
proof (intro conjI impI)
  assume "\<not> (0 \<le> s \<and> s < addrs)"
  with assms show "gen_step addrs p_irm d_ird d_irm d_is_irm st = Inl AssertionFailed"
    by (simp add: gen_step_sched)
  then show "td_step addrs p_irm d_ird d_irm d_is_irm st = Inl AssertionFailed"
    by (simp add: td_step_eq)
next
  assume a: "0 \<le> s \<and> s < addrs \<and> irds st \<noteq> []"
  then obtain m h1 where p: "heappop (irds st) = Inr (m, h1)"
    by (auto simp: heappop_def Let_def)
  with a assms show "\<exists>m h1. heappop (irds st) = Inr (m, h1)
               \<and> gen_step addrs p_irm d_ird d_irm d_is_irm st
                   = Inr \<lparr>irds = heappush h1 (ird m + s) (addr m),
                          trace = trace st @ [addr m], rng = g2\<rparr>"
    by (simp add: gen_step_sched)
next
  assume a: "kst_heap \<noteq> [] \<and> (\<forall>e \<in> set kst_heap. 0 \<le> group e \<and> group e < int (length ds)
                                        \<and> group e < int (length pop))"
  then obtain e rest where p: "kd_heappop kst_heap = Inr (e, rest)"
    by (auto simp: kd_heappop_def Let_def)
  from kd_heappop_mset [OF p] have "e \<in># mset kst_heap" by simp
  then have "e \<in> set kst_heap" by simp
  with a have "0 \<le> group e" "group e < int (length ds)" "group e < int (length pop)" by auto
  from kd_draw_ok [OF this, of F kg] p
  show "\<exists>st'. kd_step F ds pop \<lparr>heap = kst_heap, ktrace = tr, krng = kg\<rparr> = Inr st'"
    by (simp add: kd_step_def)
qed


theorem blended_ird_sample_range_witness:
  "\<not> fst (raw_unit [5, 7]) < 1 / 2
   \<and> raw_dist (snd (raw_unit [5, 7])) = (7, [])
   \<and> gen_step 3 (1 / 2) raw_dist raw_dist raw_unit
        \<lparr>irds = [\<lparr>ird = 0, addr = 1\<rparr>, \<lparr>ird = 5, addr = 0\<rparr>, \<lparr>ird = 4, addr = 2\<rparr>],
         trace = [], rng = [5, 7]\<rparr> = Inl AssertionFailed
   \<and> td_step 3 (1 / 2) raw_dist raw_dist raw_unit
        \<lparr>irds = [\<lparr>ird = 0, addr = 1\<rparr>, \<lparr>ird = 5, addr = 0\<rparr>, \<lparr>ird = 4, addr = 2\<rparr>],
         trace = [], rng = [5, 7]\<rparr> = Inl AssertionFailed
   \<and> raw_dist (snd (raw_unit [5, 2])) = (2, [])
   \<and> gen_step 3 (1 / 2) raw_dist raw_dist raw_unit
        \<lparr>irds = [\<lparr>ird = 0, addr = 1\<rparr>, \<lparr>ird = 5, addr = 0\<rparr>, \<lparr>ird = 4, addr = 2\<rparr>],
         trace = [], rng = [5, 2]\<rparr>
       = Inr \<lparr>irds = [\<lparr>ird = 2, addr = 1\<rparr>, \<lparr>ird = 5, addr = 0\<rparr>, \<lparr>ird = 4, addr = 2\<rparr>],
              trace = [1], rng = []\<rparr>
   \<and> (\<exists>st'. kd_step exact_ops [raw_dist, raw_dist] [1 / 2, 2]
               \<lparr>heap = [\<lparr>ird = 0, addr = 1, group = 1\<rparr>, \<lparr>ird = 4, addr = 0, group = 0\<rparr>,
                        \<lparr>ird = 1, addr = 2, group = 1\<rparr>],
                ktrace = [], krng = [7000]\<rparr> = Inr st')"
proof -
  let ?h = "[\<lparr>ird = 0, addr = 1\<rparr>, \<lparr>ird = 5, addr = 0\<rparr>, \<lparr>ird = 4, addr = 2\<rparr>]"
  let ?k = "[\<lparr>ird = 0, addr = 1, group = 1\<rparr>, \<lparr>ird = 4, addr = 0, group = 0\<rparr>,
            \<lparr>ird = 1, addr = 2, group = 1\<rparr>]"
  let ?st7 = "\<lparr>irds = ?h, trace = [], rng = [5, 7] :: nat list\<rparr>"
  let ?st2 = "\<lparr>irds = ?h, trace = [], rng = [5, 2] :: nat list\<rparr>"
  have u7: "\<not> fst (raw_unit (rng ?st7)) < 1 / 2" by code_simp
  have u2: "\<not> fst (raw_unit (rng ?st2)) < 1 / 2" by code_simp
  have d7: "raw_dist (snd (raw_unit (rng ?st7))) = (7, [])" by code_simp
  have d2: "raw_dist (snd (raw_unit (rng ?st2))) = (2, [])" by code_simp
  have hp: "heappop ?h = Inr (\<lparr>ird = 0, addr = 1\<rparr>, [\<lparr>ird = 4, addr = 2\<rparr>, \<lparr>ird = 5, addr = 0\<rparr>])"
    by code_simp
  have hq: "heappush [\<lparr>ird = 4, addr = 2\<rparr>, \<lparr>ird = 5, addr = 0\<rparr>] (0 + 2) 1
      = [\<lparr>ird = 2, addr = 1\<rparr>, \<lparr>ird = 5, addr = 0\<rparr>, \<lparr>ird = 4, addr = 2\<rparr>]"
    by code_simp
  note t7 = blended_ird_sample_range
    [where d_is_irm = raw_unit and st = ?st7 and p_irm = "1 / 2" and d_ird = raw_dist and s = 7
       and ?g2.0 = "[]" and addrs = 3 and d_irm = raw_dist and kst_heap = ?k
       and ds = "[raw_dist, raw_dist]" and pop = "[1 / 2, 2]" and tr = "[]" and kg = "[7000]"
       and F = exact_ops,
     OF u7 d7]
  note t2 = blended_ird_sample_range
    [where d_is_irm = raw_unit and st = ?st2 and p_irm = "1 / 2" and d_ird = raw_dist and s = 2
       and ?g2.0 = "[]" and addrs = 3 and d_irm = raw_dist and kst_heap = ?k
       and ds = "[raw_dist, raw_dist]" and pop = "[1 / 2, 2]" and tr = "[]" and kg = "[7000]"
       and F = exact_ops,
     OF u2 d2]
  from t7 have a: "gen_step 3 (1 / 2) raw_dist raw_dist raw_unit ?st7 = Inl AssertionFailed"
    "td_step 3 (1 / 2) raw_dist raw_dist raw_unit ?st7 = Inl AssertionFailed"
    by simp_all
  from t7 have k: "\<exists>st'. kd_step exact_ops [raw_dist, raw_dist] [1 / 2, 2]
               \<lparr>heap = ?k, ktrace = [], krng = [7000]\<rparr> = Inr st'"
    by simp
  from t2 have "\<exists>m h1. heappop (irds ?st2) = Inr (m, h1)
               \<and> gen_step 3 (1 / 2) raw_dist raw_dist raw_unit ?st2
                   = Inr \<lparr>irds = heappush h1 (ird m + 2) (addr m),
                          trace = trace ?st2 @ [addr m], rng = []\<rparr>"
    by simp
  with hp hq have b: "gen_step 3 (1 / 2) raw_dist raw_dist raw_unit ?st2
       = Inr \<lparr>irds = [\<lparr>ird = 2, addr = 1\<rparr>, \<lparr>ird = 5, addr = 0\<rparr>, \<lparr>ird = 4, addr = 2\<rparr>],
              trace = [1], rng = []\<rparr>"
    by auto
  from u7 d7 d2 a b k show ?thesis by simp
qed

subsection \<open>C1: the interval table of the zipf and pareto samplers\<close>

lemma covered_append: "covered (xs @ ys) x \<longleftrightarrow> covered xs x \<or> covered ys x"
  by (induction xs) auto

lemma covered_table:
  assumes "0 < w"
  shows "covered (map (\<lambda>i. ((i - 1) * w, i * w - 1)) [1..int n]) x \<longleftrightarrow> 0 \<le> x \<and> x < int n * w"
proof (induction n)
  case 0
  from assms show ?case by simp
next
  case (Suc n)
  have up: "[1..int (Suc n)] = [1..int n] @ [int n + 1]"
    by (simp add: upto_rec2)
  have nw: "0 \<le> int n * w" using assms by simp
  have "covered (map (\<lambda>i. ((i - 1) * w, i * w - 1)) [1..int (Suc n)]) x
      \<longleftrightarrow> (0 \<le> x \<and> x < int n * w) \<or> (int n * w \<le> x \<and> x \<le> (int n + 1) * w - 1)"
    by (simp only: up map_append covered_append Suc.IH) simp
  also have "\<dots> \<longleftrightarrow> 0 \<le> x \<and> x < int (Suc n) * w"
  proof -
    have e: "int (Suc n) * w = int n * w + w" "(int n + 1) * w = int n * w + w"
      by (simp_all add: algebra_simps)
    show ?thesis unfolding e using nw assms by linarith
  qed
  finally show ?case .
qed

lemma get_intervals_table:
  assumes "0 < classes" "classes \<le> mx"
  shows "get_intervals classes mx
           = Inr (map (\<lambda>i. ((i - 1) * (mx div classes), i * (mx div classes) - 1)) [1..classes])"
proof -
  let ?w = "mx div classes"
  have le: "classes * ?w \<le> mx"
  proof -
    have "classes * ?w + mx mod classes = mx" by simp
    moreover have "0 \<le> mx mod classes" using assms(1) by simp
    ultimately show ?thesis by linarith
  qed
  have w0: "0 \<le> ?w" using assms by (simp add: pos_imp_zdiv_nonneg_iff)
  have "min (i * ?w - 1) (mx - 1) = i * ?w - 1" if "i \<in> set [1..classes]" for i
  proof -
    from that have "i \<le> classes" by simp
    then have "i * ?w \<le> classes * ?w" using w0 by (rule mult_right_mono)
    with le show ?thesis by simp
  qed
  then have "map (\<lambda>i. ((i - 1) * ?w, min (i * ?w - 1) (mx - 1))) [1..classes]
           = map (\<lambda>i. ((i - 1) * ?w, i * ?w - 1)) [1..classes]"
    by (intro map_cong) simp_all
  with assms show ?thesis by (simp add: get_intervals_def Let_def)
qed


lemma foldl_add_sum_list:
  fixes a :: real
  shows "foldl (\<lambda>x y. x + y) a ws = a + sum_list ws"
  by (induction ws arbitrary: a) simp_all

lemma sum_list_normalise_vec: "sum_list ws \<noteq> 0 \<Longrightarrow> sum_list (normalise_vec exact_ops ws) = 1"
proof -
  have "sum_list (map (\<lambda>w. w / s) ws) = sum_list ws / s" for s :: real
    by (induction ws) (simp_all add: add_divide_distrib)
  then show "sum_list ws \<noteq> 0 \<Longrightarrow> sum_list (normalise_vec exact_ops ws) = 1"
    by (simp add: normalise_vec_def exact_ops_def foldl_add_sum_list)
qed

lemma sum_list_pos_real:
  fixes ws :: "real list"
  shows "ws \<noteq> [] \<Longrightarrow> \<forall>w \<in> set ws. 0 < w \<Longrightarrow> 0 < sum_list ws"
proof (induction ws)
  case Nil
  then show ?case by simp
next
  case (Cons w ws)
  show ?case
  proof (cases "ws = []")
    case True
    with Cons.prems show ?thesis by simp
  next
    case False
    with Cons have "0 < sum_list ws" "0 < w" by simp_all
    then show ?thesis by simp
  qed
qed

lemma zipf_weights_sum: "0 < classes \<Longrightarrow> 0 < sum_list (zipf_weights exact_ops alpha classes)"
proof (rule sum_list_pos_real)
  assume c: "0 < classes"
  then have "[1..classes] \<noteq> []" by simp
  then show "zipf_weights exact_ops alpha classes \<noteq> []" by (simp add: zipf_weights_def)
  show "\<forall>w \<in> set (zipf_weights exact_ops alpha classes). 0 < w"
    by (auto simp: zipf_weights_def exact_ops_def)
qed

lemma pareto_weights_sum:
  "0 < classes \<Longrightarrow> 0 < xm \<Longrightarrow> 0 < sum_list (pareto_weights exact_ops xm alpha classes)"
proof (rule sum_list_pos_real)
  assume c: "0 < classes" and x: "0 < xm"
  then have "[1..classes] \<noteq> []" by simp
  then show "pareto_weights exact_ops xm alpha classes \<noteq> []" by (simp add: pareto_weights_def)
  from x show "\<forall>w \<in> set (pareto_weights exact_ops xm alpha classes). 0 < w"
    by (auto simp: pareto_weights_def exact_ops_def)
qed

lemma interval_table_nth:
  assumes "idx < nat classes"
  shows "interval_table classes mx ! idx
           = (int idx * (mx div classes), (int idx + 1) * (mx div classes) - 1)"
proof -
  from assms have "1 + int idx \<le> classes" by simp
  then have "[1..classes] ! idx = 1 + int idx" by (rule nth_upto)
  moreover from assms have "idx < length [1..classes]" by simp
  ultimately show ?thesis by (simp add: interval_table_def)
qed

text \<open>
  C1, as the code has it. For \<open>0 < classes \<le> mx\<close> the table built by
  \<^verbatim>\<open>get_intervals\<close> has \<open>classes\<close> intervals of width \<open>w = mx div classes\<close>, the one of
  class \<open>idx\<close> (from 0) being \<open>[idx * w, (idx + 1) * w - 1]\<close>: the clamp to \<open>mx - 1\<close>
  never changes a bound. The intervals are consecutive and cover exactly the addresses
  \<open>0 \<le> x < classes * w\<close>; this is all of \<open>[0, mx)\<close> only when \<open>classes\<close> divides \<open>mx\<close>,
  and otherwise the last \<open>mx mod classes\<close> addresses lie in no interval. The zipf and
  the pareto sampler are the two-stage draw on this table: a class is picked by the
  discrete distribution over the normalised weights, then an address by the uniform
  distribution on the interval of that class. The normalised weights are the power-law
  weights, each divided by their sum; in exact arithmetic they sum to 1.
\<close>

theorem interval_table_partition:
  assumes "0 < classes" and "classes \<le> mx"
  shows "get_intervals classes mx = Inr (interval_table classes mx)
       \<and> length (interval_table classes mx) = nat classes
       \<and> (idx < nat classes \<longrightarrow>
            interval_table classes mx ! idx
              = (int idx * (mx div classes), (int idx + 1) * (mx div classes) - 1))
       \<and> (covered (interval_table classes mx) x \<longleftrightarrow> 0 \<le> x \<and> x < classes * (mx div classes))
       \<and> classes * (mx div classes) \<le> mx
       \<and> (classes * (mx div classes) = mx \<longleftrightarrow> classes dvd mx)
       \<and> (f_less F (f_of_i64 F 0) alpha \<longrightarrow>
            zipf_dist F L alpha classes mx
              = Inr (two_stage L (normalise_vec F (zipf_weights F alpha classes)) (interval_table classes mx)))
       \<and> (f_less F (f_of_i64 F 0) xm \<and> f_less F (f_of_i64 F 0) alpha \<longrightarrow>
            pareto_dist F L xm alpha classes mx
              = Inr (two_stage L (normalise_vec F (pareto_weights F xm alpha classes))
                       (interval_table classes mx)))
       \<and> sum_list (normalise_vec exact_ops (zipf_weights exact_ops ra classes)) = 1
       \<and> (0 < rxm \<longrightarrow>
            sum_list (normalise_vec exact_ops (pareto_weights exact_ops rxm ra classes)) = 1)
       \<and> (discrete_distribution L ws g = (idx, g1) \<and> idx < nat classes \<longrightarrow>
            two_stage L ws (interval_table classes mx) g
              = uniform_int_distribution L (int idx * (mx div classes))
                  ((int idx + 1) * (mx div classes) - 1) g1)"
proof -
  let ?w = "mx div classes"
  have tab: "get_intervals classes mx = Inr (interval_table classes mx)"
    unfolding interval_table_def using assms by (rule get_intervals_table)
  have len: "length (interval_table classes mx) = nat classes"
    using assms by (simp add: interval_table_def)
  have w: "0 < ?w" using assms by (simp add: pos_imp_zdiv_pos_iff)
  have "covered (map (\<lambda>i. ((i - 1) * ?w, i * ?w - 1)) [1..int (nat classes)]) x
          \<longleftrightarrow> 0 \<le> x \<and> x < int (nat classes) * ?w"
    using w by (rule covered_table)
  with assms have cov: "covered (interval_table classes mx) x \<longleftrightarrow> 0 \<le> x \<and> x < classes * ?w"
    by (simp add: interval_table_def)
  have split: "classes * ?w + mx mod classes = mx" by simp
  have m0: "0 \<le> mx mod classes" using assms(1) by simp
  from split m0 have le: "classes * ?w \<le> mx" by linarith
  have dv: "classes * ?w = mx \<longleftrightarrow> classes dvd mx"
  proof
    assume "classes * ?w = mx"
    then show "classes dvd mx" by (metis dvd_triv_left)
  next
    assume "classes dvd mx"
    then show "classes * ?w = mx" by simp
  qed
  have zl: "length (normalise_vec F (zipf_weights F alpha classes)) = length (interval_table classes mx)"
    using assms by (simp add: normalise_vec_def zipf_weights_def interval_table_def)
  have pl: "length (normalise_vec F (pareto_weights F xm alpha classes)) = length (interval_table classes mx)"
    using assms by (simp add: normalise_vec_def pareto_weights_def interval_table_def)
  have z: "f_less F (f_of_i64 F 0) alpha \<longrightarrow>
            zipf_dist F L alpha classes mx
              = Inr (two_stage L (normalise_vec F (zipf_weights F alpha classes)) (interval_table classes mx))"
    using assms(1) by (simp add: zipf_dist_def tab zl)
  have p: "f_less F (f_of_i64 F 0) xm \<and> f_less F (f_of_i64 F 0) alpha \<longrightarrow>
            pareto_dist F L xm alpha classes mx
              = Inr (two_stage L (normalise_vec F (pareto_weights F xm alpha classes))
                       (interval_table classes mx))"
    using assms(1) by (simp add: pareto_dist_def tab pl)
  from zipf_weights_sum [OF assms(1), of ra]
  have "sum_list (zipf_weights exact_ops ra classes) \<noteq> 0" by simp
  then have zs: "sum_list (normalise_vec exact_ops (zipf_weights exact_ops ra classes)) = 1"
    by (rule sum_list_normalise_vec)
  have ps: "0 < rxm \<longrightarrow>
            sum_list (normalise_vec exact_ops (pareto_weights exact_ops rxm ra classes)) = 1"
  proof
    assume "0 < rxm"
    with pareto_weights_sum [OF assms(1), of rxm ra]
    have "sum_list (pareto_weights exact_ops rxm ra classes) \<noteq> 0" by simp
    then show "sum_list (normalise_vec exact_ops (pareto_weights exact_ops rxm ra classes)) = 1"
      by (rule sum_list_normalise_vec)
  qed
  have n: "idx < nat classes \<longrightarrow>
            interval_table classes mx ! idx = (int idx * ?w, (int idx + 1) * ?w - 1)"
    by (simp add: interval_table_nth)
  have t: "discrete_distribution L ws g = (idx, g1) \<and> idx < nat classes \<longrightarrow>
            two_stage L ws (interval_table classes mx) g
              = uniform_int_distribution L (int idx * ?w) ((int idx + 1) * ?w - 1) g1"
    by (simp add: two_stage_def interval_table_nth)
  from tab len n cov le dv z p zs ps t show ?thesis by blast
qed

theorem interval_table_partition_witness:
  "0 < (3::int) \<and> (3::int) \<le> 10
   \<and> get_intervals 3 10 = Inr (interval_table 3 10)
   \<and> interval_table 3 10 = [(0, 2), (3, 5), (6, 8)]
   \<and> interval_table 3 10 ! 1 = (int 1 * (10 div 3), (int 1 + 1) * (10 div 3) - 1)
   \<and> covered (interval_table 3 10) 8
   \<and> zipf_dist exact_ops ex_lib 1 3 10 = Inr (two_stage ex_lib (normalise_vec exact_ops (zipf_weights exact_ops 1 3)) (interval_table 3 10))
   \<and> pareto_dist exact_ops ex_lib 1 1 3 10
       = Inr (two_stage ex_lib (normalise_vec exact_ops (pareto_weights exact_ops 1 1 3)) (interval_table 3 10))
   \<and> sum_list (normalise_vec exact_ops (zipf_weights exact_ops 1 3)) = 1
   \<and> sum_list (normalise_vec exact_ops (pareto_weights exact_ops 1 1 3)) = 1
   \<and> discrete_distribution ex_lib [1, 1, 1] [4, 7] = (1, [7])
   \<and> two_stage ex_lib [1, 1, 1] (interval_table 3 10) [4, 7]
       = uniform_int_distribution ex_lib (int 1 * (10 div 3)) ((int 1 + 1) * (10 div 3) - 1) [7]
   \<and> two_stage ex_lib [1, 1, 1] (interval_table 3 10) [4, 7] = (4, [])"
proof -
  have h1: "0 < (3::int)" and h2: "(3::int) \<le> 10" by simp_all
  note t = interval_table_partition [OF h1 h2, where F = exact_ops and idx = 1 and x = 8
      and alpha = 1 and xm = 1 and ra = 1 and rxm = 1
      and L = ex_lib and ws = "[1, 1, 1]" and g = "[4, 7]" and ?g1.0 = "[7]"]
  have o: "f_less exact_ops (f_of_i64 exact_ops 0) 1" by (simp add: exact_ops_def)
  have d: "discrete_distribution ex_lib [1, 1, 1] [4, 7] = (1, [7])" by code_simp
  have v: "interval_table 3 10 = [(0, 2), (3, 5), (6, 8)]" by code_simp
  have r: "two_stage ex_lib [1, 1, 1] (interval_table 3 10) [4, 7] = (4, [])" by code_simp
  from t have a: "get_intervals 3 10 = Inr (interval_table 3 10)" by blast
  from t have b: "interval_table 3 10 ! 1 = (int 1 * (10 div 3), (int 1 + 1) * (10 div 3) - 1)"
    by simp
  from t have c: "covered (interval_table 3 10) 8" by simp
  from t o have z: "zipf_dist exact_ops ex_lib 1 3 10
      = Inr (two_stage ex_lib (normalise_vec exact_ops (zipf_weights exact_ops 1 3)) (interval_table 3 10))"
    by blast
  from t o have p: "pareto_dist exact_ops ex_lib 1 1 3 10
       = Inr (two_stage ex_lib (normalise_vec exact_ops (pareto_weights exact_ops 1 1 3)) (interval_table 3 10))"
    by blast
  from t have zs: "sum_list (normalise_vec exact_ops (zipf_weights exact_ops 1 3)) = 1"
    by blast
  from t have ps: "sum_list (normalise_vec exact_ops (pareto_weights exact_ops 1 1 3)) = 1"
    by simp
  from t d have s: "two_stage ex_lib [1, 1, 1] (interval_table 3 10) [4, 7]
       = uniform_int_distribution ex_lib (int 1 * (10 div 3)) ((int 1 + 1) * (10 div 3) - 1) [7]"
    by simp
  from h1 h2 a v b c z p zs ps d s r show ?thesis by blast
qed

text \<open>
  The claim as the specification states it fails: with three classes on ten addresses
  the last interval ends at 8, not at 9, and address 9 is in no interval.
\<close>

theorem interval_table_counterexample:
  "get_intervals 3 10 = Inr [(0, 2), (3, 5), (6, 8)]
   \<and> snd (last [(0, 2), (3, 5), (6 :: int, 8 :: int)]) \<noteq> 10 - 1
   \<and> \<not> covered [(0, 2), (3, 5), (6, 8)] 9"
  by code_simp

subsection \<open>C8: the popularity mode of \<^verbatim>\<open>parse_irm\<close>\<close>

lemma find_sub_char: "find_sub [c] s = None \<longleftrightarrow> c \<notin> set s"
  by (induction s) auto

lemma normalise_vec_nth:
  "idx < length ws \<Longrightarrow>
     normalise_vec F ws ! idx = f_div F (ws ! idx) (foldl (f_add F) (f_of_i64 F 0) ws)"
  by (simp add: normalise_vec_def)

text \<open>
  C8: for a specification without a colon whose comma-separated tokens all convert to
  numbers, \<^verbatim>\<open>parse_irm\<close> in popularity mode returns the sampler that draws an index
  \<open>idx\<close> by the discrete distribution over the normalised weights \<open>w\<close> and returns
  \<^verbatim>\<open>llround(w[idx] * 10000.0)\<close>, the selected normalised weight in fixed point with scale
  10000, rounded by \<^verbatim>\<open>llround\<close>. The normalised weight is the parsed weight divided by
  the sum of all weights, product, quotient and sum being those of the doubles; the
  address bound \<open>mx\<close> plays no part in the value. In exact arithmetic the normalised
  weights of a list whose sum is not zero sum to 1.
\<close>

theorem popularity_mode_draw:
  assumes "CHR '':'' \<notin> set dist_str"
    and "those (map (stod L) (split_from '','' dist_str)) = Some parsed"
  shows "parse_irm F L dist_str mx True = Inr (popularity_sampler F L (normalise_vec F parsed))
       \<and> (discrete_distribution L (normalise_vec F parsed) g = (idx, g1) \<longrightarrow>
            popularity_sampler F L (normalise_vec F parsed) g
              = (f_llround F (f_mul F (normalise_vec F parsed ! idx) (f_of_i64 F 10000)), g1))
       \<and> (idx < length parsed \<longrightarrow>
            normalise_vec F parsed ! idx
              = f_div F (parsed ! idx) (foldl (f_add F) (f_of_i64 F 0) parsed))
       \<and> (sum_list ws \<noteq> 0 \<longrightarrow> sum_list (normalise_vec exact_ops ws) = 1)"
proof (intro conjI impI)
  from assms(1) have "find_sub '':'' dist_str = None" by (simp add: find_sub_char)
  with assms(2) show "parse_irm F L dist_str mx True = Inr (popularity_sampler F L (normalise_vec F parsed))"
    by (simp add: parse_irm_def split_def)
next
  assume "discrete_distribution L (normalise_vec F parsed) g = (idx, g1)"
  then show "popularity_sampler F L (normalise_vec F parsed) g
              = (f_llround F (f_mul F (normalise_vec F parsed ! idx) (f_of_i64 F 10000)), g1)"
    by (simp add: popularity_sampler_def)
next
  assume "idx < length parsed"
  then show "normalise_vec F parsed ! idx
              = f_div F (parsed ! idx) (foldl (f_add F) (f_of_i64 F 0) parsed)"
    by (rule normalise_vec_nth)
next
  assume "sum_list ws \<noteq> 0"
  then show "sum_list (normalise_vec exact_ops ws) = 1" by (rule sum_list_normalise_vec)
qed

theorem popularity_mode_draw_witness:
  "CHR '':'' \<notin> set ''1,3''
   \<and> those (map (stod ex_lib) (split_from '','' ''1,3'')) = Some [1, 3]
   \<and> parse_irm exact_ops ex_lib ''1,3'' 100 True
       = Inr (popularity_sampler exact_ops ex_lib (normalise_vec exact_ops [1, 3]))
   \<and> normalise_vec exact_ops [1, 3] = [1 / 4, 3 / 4]
   \<and> discrete_distribution ex_lib (normalise_vec exact_ops [1, 3]) [1, 0] = (1, [0])
   \<and> popularity_sampler exact_ops ex_lib (normalise_vec exact_ops [1, 3]) [1, 0]
       = (f_llround exact_ops (f_mul exact_ops (normalise_vec exact_ops [1, 3] ! 1)
            (f_of_i64 exact_ops 10000)), [0])
   \<and> normalise_vec exact_ops [1, 3] ! 1
       = f_div exact_ops ([1, 3] ! 1) (foldl (f_add exact_ops) (f_of_i64 exact_ops 0) [1, 3])
   \<and> sum_list (normalise_vec exact_ops [1, 3]) = 1
   \<and> popularity_sampler exact_ops ex_lib (normalise_vec exact_ops [1, 3]) [1, 0] = (7500, [0])
   \<and> popularity_sampler exact_ops ex_lib (normalise_vec exact_ops [1, 3]) [0] = (2500, [])"
proof -
  have h1: "CHR '':'' \<notin> set ''1,3''" by simp
  have h2: "those (map (stod ex_lib) (split_from '','' ''1,3'')) = Some [1, 3]" by code_simp
  note t = popularity_mode_draw [OF h1 h2, where F = exact_ops and mx = 100 and g = "[1, 0]"
      and idx = 1 and ?g1.0 = "[0]" and ws = "[1, 3]"]
  have n: "normalise_vec exact_ops [1, 3] = [1 / 4, 3 / 4]" by code_simp
  have d: "discrete_distribution ex_lib (normalise_vec exact_ops [1, 3]) [1, 0] = (1, [0])"
    by code_simp
  have v: "popularity_sampler exact_ops ex_lib (normalise_vec exact_ops [1, 3]) [1, 0] = (7500, [0])"
    "popularity_sampler exact_ops ex_lib (normalise_vec exact_ops [1, 3]) [0] = (2500, [])"
    by code_simp+
  from t have a: "parse_irm exact_ops ex_lib ''1,3'' 100 True
       = Inr (popularity_sampler exact_ops ex_lib (normalise_vec exact_ops [1, 3]))"
    by blast
  from t d have b: "popularity_sampler exact_ops ex_lib (normalise_vec exact_ops [1, 3]) [1, 0]
       = (f_llround exact_ops (f_mul exact_ops (normalise_vec exact_ops [1, 3] ! 1)
            (f_of_i64 exact_ops 10000)), [0])"
    by blast
  from t have c: "normalise_vec exact_ops [1, 3] ! 1
       = f_div exact_ops ([1, 3] ! 1) (foldl (f_add exact_ops) (f_of_i64 exact_ops 0) [1, 3])"
    by simp
  from t have e: "sum_list (normalise_vec exact_ops [1, 3]) = 1" by simp
  from h1 h2 a n d b c e v show ?thesis by blast
qed

subsection \<open>C6: no validation of length and address count\<close>

text \<open>
  C6, as the code has it. Neither generator checks \<open>length\<close> or \<open>addresses\<close> before its
  main loop.
  \<^item> In blended mode a length that is zero or negative gives the state of set-up and the
    empty trace, without an error, for every address count.
  \<^item> In blended mode an address count that is zero or negative gives an empty heap at
    set-up, without an error; a run of positive length then fails the range assertion of
    its first step when that step takes the schedule branch.
  \<^item> In grouped mode a length of zero gives whatever set-up gives, with no further check.
\<close>

theorem no_validation_before_loop:
  "(len \<le> 0 \<longrightarrow>
      gen_run addrs len p_irm d_ird d_irm d_is_irm g = Inr (gen_setup addrs d_ird g)
      \<and> gen_addresses addrs len p_irm d_ird d_irm d_is_irm g = Inr []
      \<and> td_gen addrs len p_irm d_ird d_irm d_is_irm g = Inr [])
   \<and> (addrs \<le> 0 \<longrightarrow> gen_setup addrs d_ird g = \<lparr>irds = [], trace = [], rng = g\<rparr>)
   \<and> (addrs \<le> 0 \<and> 0 < len \<and> \<not> fst (d_is_irm g) < p_irm \<longrightarrow>
        gen_addresses addrs len p_irm d_ird d_irm d_is_irm g = Inl AssertionFailed
        \<and> td_gen addrs len p_irm d_ird d_irm d_is_irm g = Inl AssertionFailed)
   \<and> (len = 0 \<longrightarrow> kd_run F addrs len ds pop g = kd_setup F addrs ds pop g)"
proof (intro conjI impI)
  assume l: "len \<le> 0"
  then show run: "gen_run addrs len p_irm d_ird d_irm d_is_irm g = Inr (gen_setup addrs d_ird g)"
    by (simp add: gen_run_def gen_loop_stop)
  have "trace (gen_setup addrs d_ird g) = []"
    by (simp add: gen_setup_def case_prod_beta)
  with run show "gen_addresses addrs len p_irm d_ird d_irm d_is_irm g = Inr []"
    and "td_gen addrs len p_irm d_ird d_irm d_is_irm g = Inr []"
    by (simp_all add: gen_addresses_def td_gen_def td_run_eq)
next
  assume "addrs \<le> 0"
  then show "gen_setup addrs d_ird g = \<lparr>irds = [], trace = [], rng = g\<rparr>"
    by (simp add: gen_setup_def init_irds.simps [of d_ird addrs 0] make_heap_def)
next
  assume a: "addrs \<le> 0 \<and> 0 < len \<and> \<not> fst (d_is_irm g) < p_irm"
  then have s: "gen_setup addrs d_ird g = \<lparr>irds = [], trace = [], rng = g\<rparr>"
    by (simp add: gen_setup_def init_irds.simps [of d_ird addrs 0] make_heap_def)
  from a have u: "\<not> fst (d_is_irm (rng \<lparr>irds = [], trace = [], rng = g\<rparr>)) < p_irm" by simp
  from a have "gen_step addrs p_irm d_ird d_irm d_is_irm \<lparr>irds = [], trace = [], rng = g\<rparr>
      = Inl AssertionFailed"
    by (simp add: gen_step_sched [where d_is_irm = d_is_irm and p_irm = p_irm
          and st = "\<lparr>irds = [], trace = [], rng = g\<rparr>", OF u])
  with a have "gen_run addrs len p_irm d_ird d_irm d_is_irm g = Inl AssertionFailed"
    by (simp add: gen_run_def s gen_loop_fail)
  then show "gen_addresses addrs len p_irm d_ird d_irm d_is_irm g = Inl AssertionFailed"
    and "td_gen addrs len p_irm d_ird d_irm d_is_irm g = Inl AssertionFailed"
    by (simp_all add: gen_addresses_def td_gen_def td_run_eq)
next
  assume "len = 0"
  then show "kd_run F addrs len ds pop g = kd_setup F addrs ds pop g"
    by (simp add: kd_run_def kd_loop_stop split: sum.split)
qed

theorem no_validation_before_loop_witness:
  "gen_run (- 2) (- 3) (1 / 2) raw_dist raw_dist raw_unit [5, 7]
     = Inr (gen_setup (- 2) raw_dist [5, 7])
   \<and> gen_addresses (- 2) (- 3) (1 / 2) raw_dist raw_dist raw_unit [5, 7] = Inr []
   \<and> td_gen (- 2) (- 3) (1 / 2) raw_dist raw_dist raw_unit [5, 7] = Inr []
   \<and> gen_setup (- 2) raw_dist [5, 7] = \<lparr>irds = [], trace = [], rng = [5, 7]\<rparr>
   \<and> \<not> fst (raw_unit [5, 7]) < 1 / 2
   \<and> gen_addresses (- 2) 2 (1 / 2) raw_dist raw_dist raw_unit [5, 7] = Inl AssertionFailed
   \<and> td_gen (- 2) 2 (1 / 2) raw_dist raw_dist raw_unit [5, 7] = Inl AssertionFailed
   \<and> kd_run exact_ops 3 0 [raw_dist] [1] [5, 5, 5] = kd_setup exact_ops 3 [raw_dist] [1] [5, 5, 5]
   \<and> kd_gen exact_ops 3 0 [raw_dist] [1] [5, 5, 5] = Inr []"
proof -
  note t1 = no_validation_before_loop [where len = "- 3" and addrs = "- 2" and p_irm = "1 / 2"
      and d_ird = raw_dist and d_irm = raw_dist and d_is_irm = raw_unit and g = "[5, 7]"
      and ds = "[]" and pop = "[]" and F = exact_ops]
  note t2 = no_validation_before_loop [where len = 2 and addrs = "- 2" and p_irm = "1 / 2"
      and d_ird = raw_dist and d_irm = raw_dist and d_is_irm = raw_unit and g = "[5, 7]"
      and ds = "[]" and pop = "[]" and F = exact_ops]
  note t3 = no_validation_before_loop [where len = 0 and addrs = 3 and p_irm = "1 / 2"
      and d_ird = raw_dist and d_irm = raw_dist and d_is_irm = raw_unit and g = "[5, 5, 5]"
      and ds = "[raw_dist]" and pop = "[1]" and F = exact_ops]
  have u: "\<not> fst (raw_unit [5, 7]) < 1 / 2" by code_simp
  have k: "kd_gen exact_ops 3 0 [raw_dist] [1] [5, 5, 5] = Inr []" by code_simp
  from t1 have a: "gen_run (- 2) (- 3) (1 / 2) raw_dist raw_dist raw_unit [5, 7]
     = Inr (gen_setup (- 2) raw_dist [5, 7])"
    "gen_addresses (- 2) (- 3) (1 / 2) raw_dist raw_dist raw_unit [5, 7] = Inr []"
    "td_gen (- 2) (- 3) (1 / 2) raw_dist raw_dist raw_unit [5, 7] = Inr []"
    "gen_setup (- 2) raw_dist [5, 7] = \<lparr>irds = [], trace = [], rng = [5, 7]\<rparr>"
    by simp_all
  from t2 u have b: "gen_addresses (- 2) 2 (1 / 2) raw_dist raw_dist raw_unit [5, 7] = Inl AssertionFailed"
    "td_gen (- 2) 2 (1 / 2) raw_dist raw_dist raw_unit [5, 7] = Inl AssertionFailed"
    by simp_all
  from t3 have c: "kd_run exact_ops 3 0 [raw_dist] [1] [5, 5, 5] = kd_setup exact_ops 3 [raw_dist] [1] [5, 5, 5]"
    by simp
  from a b c u k show ?thesis by blast
qed

text \<open>
  The claim as the specification states it fails: runs with a length and an address
  count that are zero or negative return the empty trace instead of failing.
\<close>

theorem no_validation_counterexample:
  "gen_addresses 0 0 (1 / 2) raw_dist raw_dist raw_unit [5, 7] = Inr []
   \<and> gen_addresses (- 2) (- 3) (1 / 2) raw_dist raw_dist raw_unit [5, 7] = Inr []
   \<and> td_gen (- 2) (- 3) (1 / 2) raw_dist raw_dist raw_unit [5, 7] = Inr []
   \<and> kd_gen exact_ops 3 0 [raw_dist] [1] [5, 5, 5] = Inr []"
  by code_simp

end
